theory Spec2Isabelle
  imports Main "HOL-Library.AList"
begin

section \<open>Data model (shared/types)\<close>

text \<open>
  The string-literal union types of the source become datatypes.  JavaScript objects
  used as dictionaries (\<open>state.agents\<close>, \<open>state.tasks\<close>) and the \<open>Map\<close> of the lock
  manager become association lists in insertion order: a lookup is \<open>map_of\<close>, an
  assignment to a key is \<open>AList.update\<close> (an existing key keeps its position, a new
  key is appended), \<open>delete\<close> removes the entry.  Timestamps (\<open>Date.now()\<close>) are
  integers in milliseconds; every operation reads the clock once and receives that
  reading as its argument \<open>now\<close>.
\<close>

datatype AgentStatus = Idle | Working | Blocked | Error | Offline

datatype TaskStatus = Pending | Assigned | In_progress | Completed | Failed | Cancelled

datatype TaskPriority = Critical | High | Normal | Low

datatype LockType = Read | Write | Exclusive

record FileLock =
  path :: string
  lock_agentId :: string
  lock_taskId :: string
  lockedAt :: int
  expiresAt :: int
  lock_lockType :: LockType

record LockRequest =
  req_agentId :: string
  req_taskId :: string
  paths :: "string list"
  req_lockType :: LockType
  timeoutMs :: "int option"

record Conflict =
  conflict_path :: string
  heldBy :: string

record LockResult =
  success :: bool
  acquired :: "string list"
  failed :: "string list"
  conflicts :: "Conflict list option"

section \<open>LockManager\<close>

text \<open>
  The lock manager's fields: the project root, the default lease length, the lock
  table \<open>locks\<close> (keyed by normalized path) and \<open>persisted\<close>, the content of
  \<open>locks/active.json\<close> as \<open>saveLocks\<close> last wrote it (a write that throws is caught and
  logged by the source; the model takes every write to succeed).
\<close>

record LockManager =
  projectPath :: string
  defaultTimeout :: int
  locks :: "(string \<times> FileLock) list"
  persisted :: "FileLock list"

definition isAbsolute :: "string \<Rightarrow> bool" where
  "isAbsolute filePath = (case filePath of [] \<Rightarrow> False | c # _ \<Rightarrow> c = CHR ''/'')"

text \<open>
  \<open>normalizePath\<close>: an absolute path is made relative to the project root by Node's
  \<open>path.relative\<close>, which is a parameter \<open>rel\<close> of the model; any other path is left
  as given.  The second argument is \<open>this.projectPath\<close>.
\<close>

definition normalizePath :: "(string \<Rightarrow> string \<Rightarrow> string) \<Rightarrow> string \<Rightarrow> string \<Rightarrow> string" where
  "normalizePath rel projPath filePath =
     (if isAbsolute filePath then rel projPath filePath else filePath)"

definition isCompatibleLock :: "LockType \<Rightarrow> LockType \<Rightarrow> bool" where
  "isCompatibleLock existing requested =
     (if existing = Read \<and> requested = Read then True else False)"

definition saveLocks :: "LockManager \<Rightarrow> LockManager" where
  "saveLocks lm = lm\<lparr>persisted := map snd (locks lm)\<rparr>"

definition cleanExpiredLocks :: "int \<Rightarrow> LockManager \<Rightarrow> nat \<times> LockManager" where
  "cleanExpiredLocks now lm =
     (let kept = filter (\<lambda>(p, lock). \<not> now > expiresAt lock) (locks lm);
          cleaned = length (locks lm) - length kept;
          lm' = lm\<lparr>locks := kept\<rparr>
      in (cleaned, if cleaned > 0 then saveLocks lm' else lm'))"

text \<open>
  The lease length \<open>request.timeoutMs || this.defaultTimeout\<close>: the operator \<open>||\<close>
  falls back to the default when \<open>timeoutMs\<close> is undefined and also when it is \<open>0\<close>.
\<close>

definition leaseLength :: "LockRequest \<Rightarrow> LockManager \<Rightarrow> int" where
  "leaseLength request lm =
     (case timeoutMs request of
        None \<Rightarrow> defaultTimeout lm
      | Some t \<Rightarrow> if t = 0 then defaultTimeout lm else t)"

text \<open>The object literal \<open>lock\<close> that \<open>acquireLocks\<close> installs for a granted path.\<close>

definition newLock :: "int \<Rightarrow> LockRequest \<Rightarrow> LockManager \<Rightarrow> string \<Rightarrow> FileLock" where
  "newLock now request lm normalizedPath =
     \<lparr>path = normalizedPath,
      lock_agentId = req_agentId request,
      lock_taskId = req_taskId request,
      lockedAt = now,
      expiresAt = now + leaseLength request lm,
      lock_lockType = req_lockType request\<rparr>"

text \<open>
  One iteration of the loop of \<open>acquireLocks\<close> over \<open>request.paths\<close>.  The loop state is
  the lock manager together with the arrays \<open>acquired\<close>, \<open>failed\<close> and \<open>conflicts\<close>.
\<close>

definition acquireStep ::
  "(string \<Rightarrow> string \<Rightarrow> string) \<Rightarrow> int \<Rightarrow> LockRequest \<Rightarrow> string \<Rightarrow>
   LockManager \<times> string list \<times> string list \<times> Conflict list \<Rightarrow>
   LockManager \<times> string list \<times> string list \<times> Conflict list" where
  "acquireStep rel now request filePath st =
     (case st of (lm, acq, fld, cfl) \<Rightarrow>
       let normalizedPath = normalizePath rel (projectPath lm) filePath;
           existingLock = map_of (locks lm) normalizedPath;
           lock = newLock now request lm normalizedPath;
           granted = (lm\<lparr>locks := AList.update normalizedPath lock (locks lm)\<rparr>,
                      acq @ [filePath], fld, cfl)
       in (case existingLock of
             None \<Rightarrow> granted
           | Some e \<Rightarrow>
               if lock_agentId e \<noteq> req_agentId request
                  \<and> \<not> isCompatibleLock (lock_lockType e) (req_lockType request)
               then (lm, acq, fld @ [filePath],
                     cfl @ [\<lparr>conflict_path = filePath, heldBy = lock_agentId e\<rparr>])
               else granted))"

definition acquireLocks ::
  "(string \<Rightarrow> string \<Rightarrow> string) \<Rightarrow> int \<Rightarrow> LockRequest \<Rightarrow> LockManager \<Rightarrow>
   LockResult \<times> LockManager" where
  "acquireLocks rel now request lm =
     (case fold (acquireStep rel now request) (paths request)
             (snd (cleanExpiredLocks now lm), [], [], []) of
        (lm', acq, fld, cfl) \<Rightarrow>
          (\<lparr>success = (length fld = 0),
            acquired = acq,
            failed = fld,
            conflicts = (if length cfl > 0 then Some cfl else None)\<rparr>,
           if length acq > 0 then saveLocks lm' else lm'))"

definition releaseStep ::
  "(string \<Rightarrow> string \<Rightarrow> string) \<Rightarrow> string \<Rightarrow> string \<Rightarrow>
   LockManager \<times> string list \<Rightarrow> LockManager \<times> string list" where
  "releaseStep rel agentId filePath st =
     (case st of (lm, released) \<Rightarrow>
       let normalizedPath = normalizePath rel (projectPath lm) filePath
       in (case map_of (locks lm) normalizedPath of
             None \<Rightarrow> (lm, released)
           | Some lock \<Rightarrow>
               if lock_agentId lock = agentId
               then (lm\<lparr>locks := AList.delete normalizedPath (locks lm)\<rparr>,
                     released @ [filePath])
               else (lm, released)))"

definition releaseLocks ::
  "(string \<Rightarrow> string \<Rightarrow> string) \<Rightarrow> string \<Rightarrow> string list \<Rightarrow> LockManager \<Rightarrow>
   string list \<times> LockManager" where
  "releaseLocks rel agentId ps lm =
     (case fold (releaseStep rel agentId) ps (lm, []) of
        (lm', released) \<Rightarrow>
          (released, if length released > 0 then saveLocks lm' else lm'))"

definition releaseAllLocks :: "string \<Rightarrow> LockManager \<Rightarrow> string list \<times> LockManager" where
  "releaseAllLocks agentId lm =
     (let released = map fst (filter (\<lambda>(p, lock). lock_agentId lock = agentId) (locks lm));
          lm' = lm\<lparr>locks := filter (\<lambda>(p, lock). \<not> lock_agentId lock = agentId) (locks lm)\<rparr>
      in (released, if length released > 0 then saveLocks lm' else lm'))"

definition releaseTaskLocks :: "string \<Rightarrow> LockManager \<Rightarrow> string list \<times> LockManager" where
  "releaseTaskLocks taskId lm =
     (let released = map fst (filter (\<lambda>(p, lock). lock_taskId lock = taskId) (locks lm));
          lm' = lm\<lparr>locks := filter (\<lambda>(p, lock). \<not> lock_taskId lock = taskId) (locks lm)\<rparr>
      in (released, if length released > 0 then saveLocks lm' else lm'))"

definition isLocked ::
  "(string \<Rightarrow> string \<Rightarrow> string) \<Rightarrow> int \<Rightarrow> string \<Rightarrow> LockManager \<Rightarrow> bool \<times> LockManager" where
  "isLocked rel now filePath lm =
     (let normalizedPath = normalizePath rel (projectPath lm) filePath
      in (case map_of (locks lm) normalizedPath of
            None \<Rightarrow> (False, lm)
          | Some lock \<Rightarrow>
              if now > expiresAt lock
              then (False, lm\<lparr>locks := AList.delete normalizedPath (locks lm)\<rparr>)
              else (True, lm)))"

definition getAllLocks :: "int \<Rightarrow> LockManager \<Rightarrow> FileLock list \<times> LockManager" where
  "getAllLocks now lm =
     (let lm' = snd (cleanExpiredLocks now lm) in (map snd (locks lm'), lm'))"

definition checkConflicts ::
  "(string \<Rightarrow> string \<Rightarrow> string) \<Rightarrow> int \<Rightarrow> string \<Rightarrow> string list \<Rightarrow> LockManager \<Rightarrow>
   Conflict list \<times> LockManager" where
  "checkConflicts rel now agentId ps lm =
     (let lm' = snd (cleanExpiredLocks now lm)
      in (concat (map (\<lambda>filePath.
             case map_of (locks lm') (normalizePath rel (projectPath lm') filePath) of
               None \<Rightarrow> []
             | Some lock \<Rightarrow>
                 if lock_agentId lock \<noteq> agentId
                 then [\<lparr>conflict_path = filePath, heldBy = lock_agentId lock\<rparr>]
                 else []) ps),
          lm'))"

text \<open>
  \<open>loadLocks\<close> (run by the constructor) reads the persisted array \<open>data\<close> and keeps
  ``only non-expired locks'': those with \<open>Date.now() < lock.expiresAt\<close>.
\<close>

definition loadLocks :: "int \<Rightarrow> FileLock list \<Rightarrow> LockManager \<Rightarrow> LockManager" where
  "loadLocks now data lm =
     lm\<lparr>locks := fold (\<lambda>lock ls. if now < expiresAt lock then AList.update (path lock) lock ls else ls)
                     data (locks lm)\<rparr>"

section \<open>TaskServer\<close>

text \<open>
  Records of the coordinator.  Fields that no operation reads or writes after the
  record is created (\<open>tags\<close>, \<open>metadata\<close>, \<open>targetDirectories\<close>, the tunables of the
  configuration that only the timers use) are left out.  A nullable or optional field
  is an \<open>option\<close>.
\<close>

record TaskResult =
  result_success :: bool
  summary :: string
  filesModified :: "string list"
  filesCreated :: "string list"
  filesDeleted :: "string list"

record AgentInfo =
  agent_id :: string
  name :: string
  agent_status :: AgentStatus
  currentTask :: "string option"
  workingBranch :: "string option"
  workingDirectory :: string
  agent_startedAt :: int
  lastHeartbeat :: int
  agent_completedTasks :: nat
  failedTasks :: nat
  capabilities :: "string list"

record Task =
  task_id :: string
  title :: string
  description :: string
  priority :: TaskPriority
  task_status :: TaskStatus
  assignedAgent :: "string option"
  assignedAt :: "int option"
  createdAt :: int
  task_startedAt :: "int option"
  completedAt :: "int option"
  actualMinutes :: "int option"
  attempts :: nat
  maxAttempts :: nat
  targetFiles :: "string list option"
  dependsOn :: "string list option"
  blockedBy :: "string list option"
  branch :: "string option"
  baseBranch :: "string option"
  result :: "TaskResult option"
  error :: "string option"

record ServerConfig =
  config_projectPath :: string
  heartbeatTimeout :: int
  lockTimeout :: int
  gitIntegration :: bool
  branchPrefix :: string

record AgentRegisterInfo =
  info_name :: "string option"
  info_workingDirectory :: "string option"
  info_capabilities :: "string list option"

record TaskCreateOptions =
  opt_title :: string
  opt_description :: "string option"
  opt_priority :: "TaskPriority option"
  files :: "string list option"
  opt_dependsOn :: "string list option"

text \<open>
  The coordinator: its configuration, the fields of \<open>this.state\<close> that it uses and its
  lock manager.
\<close>

record TaskServer =
  config :: ServerConfig
  agents :: "(string \<times> AgentInfo) list"
  tasks :: "(string \<times> Task) list"
  taskQueue :: "string list"
  completedTasks :: "string list"
  lockManager :: LockManager

text \<open>The envelope of a message and its payload, tagged by the message type.\<close>

datatype Payload =
    AGENT_HEARTBEAT "AgentStatus option"
  | TASK_UPDATE
  | TASK_COMPLETE string TaskResult
  | TASK_FAILED string string
  | LOCK_REQUEST LockRequest
  | LOCK_RELEASE "string list"
  | AGENT_DISCONNECT
  | OTHER_MESSAGE

record Message =
  message_id :: string
  timestamp :: int
  source :: string
  payload :: Payload

text \<open>\<open>a || b\<close> on an optional string: \<open>undefined\<close> and the empty string are falsy.\<close>

definition orElse :: "string option \<Rightarrow> string \<Rightarrow> string" where
  "orElse a b = (case a of None \<Rightarrow> b | Some x \<Rightarrow> if x = [] then b else x)"

definition createInitialState :: "ServerConfig \<Rightarrow> TaskServer" where
  "createInitialState cfg =
     \<lparr>config = cfg, agents = [], tasks = [], taskQueue = [], completedTasks = [],
      lockManager = \<lparr>projectPath = config_projectPath cfg, defaultTimeout = lockTimeout cfg,
                      locks = [], persisted = []\<rparr>\<rparr>"

subsection \<open>Agent management\<close>

definition registerAgent :: "int \<Rightarrow> string \<Rightarrow> AgentRegisterInfo \<Rightarrow> TaskServer \<Rightarrow> AgentInfo \<times> TaskServer" where
  "registerAgent now agentId info s =
     (let agent = \<lparr>agent_id = agentId,
                    name = orElse (info_name info) agentId,
                    agent_status = Idle,
                    currentTask = None,
                    workingBranch = None,
                    workingDirectory = orElse (info_workingDirectory info) (config_projectPath (config s)),
                    agent_startedAt = now,
                    lastHeartbeat = now,
                    agent_completedTasks = 0,
                    failedTasks = 0,
                    capabilities = (case info_capabilities info of None \<Rightarrow> [] | Some cs \<Rightarrow> cs)\<rparr>
      in (agent, s\<lparr>agents := AList.update agentId agent (agents s)\<rparr>))"

text \<open>
  \<open>unassignTask\<close>: the task goes back to \<open>pending\<close> at the front of the queue, whatever
  its status was; the agent it was assigned to becomes idle when the task is its current one.
\<close>

definition unassignTask :: "string \<Rightarrow> TaskServer \<Rightarrow> TaskServer" where
  "unassignTask taskId s =
     (case map_of (tasks s) taskId of
        None \<Rightarrow> s
      | Some task \<Rightarrow>
          let agentId = assignedAgent task;
              lm = snd (releaseTaskLocks taskId (lockManager s));
              task' = task\<lparr>task_status := Pending, assignedAgent := None, assignedAt := None\<rparr>;
              ags = (case agentId of
                       None \<Rightarrow> agents s
                     | Some a \<Rightarrow>
                         if a = [] then agents s
                         else (case map_of (agents s) a of
                                 None \<Rightarrow> agents s
                               | Some agent \<Rightarrow>
                                   if currentTask agent = Some taskId
                                   then AList.update a
                                          (agent\<lparr>agent_status := Idle, currentTask := None,
                                                  workingBranch := None\<rparr>) (agents s)
                                   else agents s))
          in s\<lparr>tasks := AList.update taskId task' (tasks s),
                taskQueue := taskId # taskQueue s,
                agents := ags,
                lockManager := lm\<rparr>)"

definition unregisterAgent :: "string \<Rightarrow> TaskServer \<Rightarrow> TaskServer" where
  "unregisterAgent agentId s =
     (case map_of (agents s) agentId of
        None \<Rightarrow> s
      | Some agent \<Rightarrow>
          let s1 = s\<lparr>lockManager := snd (releaseAllLocks agentId (lockManager s))\<rparr>;
              s2 = (case currentTask agent of
                      None \<Rightarrow> s1
                    | Some t \<Rightarrow> if t \<noteq> [] then unassignTask t s1 else s1)
          in s2\<lparr>agents := AList.delete agentId (agents s2)\<rparr>)"

definition updateHeartbeat :: "int \<Rightarrow> string \<Rightarrow> AgentStatus option \<Rightarrow> TaskServer \<Rightarrow> TaskServer" where
  "updateHeartbeat now agentId status s =
     (case map_of (agents s) agentId of
        None \<Rightarrow> s
      | Some agent \<Rightarrow>
          let agent1 = agent\<lparr>lastHeartbeat := now\<rparr>;
              agent2 = (case status of
                          None \<Rightarrow> agent1
                        | Some st \<Rightarrow> if st \<noteq> agent_status agent1
                                     then agent1\<lparr>agent_status := st\<rparr> else agent1)
          in s\<lparr>agents := AList.update agentId agent2 (agents s)\<rparr>)"

subsection \<open>Task management\<close>

text \<open>
  \<open>state.tasks\<close> is a plain object, so \<open>this.state.tasks[depId]\<close> finds the properties
  that the object inherits from \<open>Object.prototype\<close> as well as its own keys.  These are
  the names of the inherited properties (those of ECMAScript and its annex B, which
  Node.js implements).  An inherited member is a function (for \<open>__proto__\<close> the
  prototype object itself): it is truthy and has no \<open>status\<close>.
\<close>

definition objectPrototypeNames :: "string list" where
  "objectPrototypeNames =
     [''constructor'', ''__defineGetter__'', ''__defineSetter__'', ''hasOwnProperty'',
      ''__lookupGetter__'', ''__lookupSetter__'', ''isPrototypeOf'', ''propertyIsEnumerable'',
      ''toString'', ''valueOf'', ''__proto__'', ''toLocaleString'']"

text \<open>
  The filter of \<open>createTask\<close> and \<open>assignTask\<close>: \<open>dep && dep.status !== 'completed'\<close>,
  where \<open>dep = this.state.tasks[depId]\<close>.  An own key is a task and blocks unless the
  task is completed; an inherited name blocks (\<open>undefined !== 'completed'\<close>); any other
  id gives \<open>undefined\<close> and does not block.
\<close>

definition dependencyUnmet :: "(string \<times> Task) list \<Rightarrow> string \<Rightarrow> bool" where
  "dependencyUnmet ts depId =
     (case map_of ts depId of
        None \<Rightarrow> depId \<in> set objectPrototypeNames
      | Some dep \<Rightarrow> task_status dep \<noteq> Completed)"

text \<open>
  The other lookups are by the \<open>taskId\<close> and \<open>agentId\<close> arguments of the operations:
  ids that \<open>generateTaskId()\<close> made and ids of registered agents, handed on by the
  coordinator and its agents.  The model reads such an argument as an own key or as no
  property at all.
\<close>

text \<open>
  \<open>createTask\<close>; \<open>taskId\<close> is the value of \<open>generateTaskId()\<close>, a string
  \<open>task-<ms>-<random>\<close>.  The ids in \<open>options.dependsOn\<close> are typed by the user
  (\<open>--depends\<close>) and can be any strings.
\<close>

definition createTask :: "int \<Rightarrow> string \<Rightarrow> TaskCreateOptions \<Rightarrow> TaskServer \<Rightarrow> Task \<times> TaskServer" where
  "createTask now taskId options s =
     (let task = \<lparr>task_id = taskId,
                   title = opt_title options,
                   description = orElse (opt_description options) [],
                   priority = (case opt_priority options of None \<Rightarrow> Normal | Some p \<Rightarrow> p),
                   task_status = Pending,
                   assignedAgent = None,
                   assignedAt = None,
                   createdAt = now,
                   task_startedAt = None,
                   completedAt = None,
                   actualMinutes = None,
                   attempts = 0,
                   maxAttempts = 3,
                   targetFiles = files options,
                   dependsOn = opt_dependsOn options,
                   blockedBy = None,
                   branch = None,
                   baseBranch = None,
                   result = None,
                   error = None\<rparr>;
          task' = (case opt_dependsOn options of
                     None \<Rightarrow> task
                   | Some deps \<Rightarrow>
                       let blockers = filter (dependencyUnmet (tasks s)) deps
                       in if length blockers > 0 then task\<lparr>blockedBy := Some blockers\<rparr> else task)
      in (task', s\<lparr>tasks := AList.update taskId task' (tasks s),
                    taskQueue := taskQueue s @ [taskId]\<rparr>))"

text \<open>
  The part of \<open>assignTask\<close> after its checks (``Assign the task'' to ``Acquire locks''):
  \<open>task\<close> and \<open>agent\<close> are the records the checks looked up.
\<close>

definition assignCommit ::
  "(string \<Rightarrow> string \<Rightarrow> string) \<Rightarrow> int \<Rightarrow> string \<Rightarrow> string \<Rightarrow> Task \<Rightarrow> AgentInfo \<Rightarrow> TaskServer \<Rightarrow>
   Task option \<times> TaskServer" where
  "assignCommit rel now taskId agentId task agent s =
     (let task1 = task\<lparr>task_status := Assigned, assignedAgent := Some agentId,
                        assignedAt := Some now, attempts := attempts task + 1\<rparr>;
          task2 = (if gitIntegration (config s)
                   then task1\<lparr>branch := Some (branchPrefix (config s) @ agentId @ ''/'' @ taskId),
                               baseBranch := Some ''main''\<rparr>
                   else task1);
          agent' = agent\<lparr>agent_status := Working, currentTask := Some taskId,
                          workingBranch := (case branch task2 of
                                              None \<Rightarrow> None
                                            | Some b \<Rightarrow> if b \<noteq> [] then Some b else None)\<rparr>;
          lm = (case targetFiles task2 of
                  None \<Rightarrow> lockManager s
                | Some fs \<Rightarrow>
                    snd (acquireLocks rel now
                           \<lparr>req_agentId = agentId, req_taskId = taskId, paths = fs,
                            req_lockType = Write, timeoutMs = None\<rparr> (lockManager s)))
      in (Some task2,
          s\<lparr>tasks := AList.update taskId task2 (tasks s),
            agents := AList.update agentId agent' (agents s),
            taskQueue := remove1 taskId (taskQueue s),
            lockManager := lm\<rparr>))"

definition assignTask ::
  "(string \<Rightarrow> string \<Rightarrow> string) \<Rightarrow> int \<Rightarrow> string \<Rightarrow> string \<Rightarrow> TaskServer \<Rightarrow>
   Task option \<times> TaskServer" where
  "assignTask rel now taskId agentId s =
     (case map_of (tasks s) taskId of
        None \<Rightarrow> (None, s)
      | Some task \<Rightarrow>
         (case map_of (agents s) agentId of
            None \<Rightarrow> (None, s)
          | Some agent \<Rightarrow>
              if task_status task \<noteq> Pending then (None, s)
              else if agent_status agent \<noteq> Idle then (None, s)
              else if (case blockedBy task of
                         None \<Rightarrow> False
                       | Some bs \<Rightarrow> length bs > 0
                                    \<and> length (filter (dependencyUnmet (tasks s)) bs) > 0)
              then (None, s)
              else
                let task1 = (case blockedBy task of
                               None \<Rightarrow> task
                             | Some bs \<Rightarrow> if length bs > 0 then task\<lparr>blockedBy := Some []\<rparr> else task);
                    s1 = s\<lparr>tasks := AList.update taskId task1 (tasks s)\<rparr>
                in (case targetFiles task1 of
                      None \<Rightarrow> assignCommit rel now taskId agentId task1 agent s1
                    | Some fs \<Rightarrow>
                        let checked = checkConflicts rel now agentId fs (lockManager s1);
                            s2 = s1\<lparr>lockManager := snd checked\<rparr>
                        in if length (fst checked) > 0 then (None, s2)
                           else assignCommit rel now taskId agentId task1 agent s2)))"

definition startTask :: "int \<Rightarrow> string \<Rightarrow> string \<Rightarrow> TaskServer \<Rightarrow> TaskServer" where
  "startTask now taskId agentId s =
     (case map_of (tasks s) taskId of
        None \<Rightarrow> s
      | Some task \<Rightarrow>
          if assignedAgent task \<noteq> Some agentId then s
          else s\<lparr>tasks := AList.update taskId
                             (task\<lparr>task_status := In_progress, task_startedAt := Some now\<rparr>)
                             (tasks s)\<rparr>)"

text \<open>
  \<open>unblockDependentTasks\<close>: every task that has a \<open>blockedBy\<close> array loses the first
  occurrence of the completed id in it (\<open>indexOf\<close> and \<open>splice\<close>).
\<close>

definition unblockDependentTasks :: "string \<Rightarrow> TaskServer \<Rightarrow> TaskServer" where
  "unblockDependentTasks completedTaskId s =
     s\<lparr>tasks := map (\<lambda>(k, task).
                       (k, case blockedBy task of
                             None \<Rightarrow> task
                           | Some bs \<Rightarrow> task\<lparr>blockedBy := Some (remove1 completedTaskId bs)\<rparr>))
                   (tasks s)\<rparr>"

text \<open>
  The update of the agent in \<open>completeTask\<close> and \<open>failTask\<close> (\<open>if (agent) {...}\<close>); the
  argument \<open>count\<close> increments the counter of the operation.
\<close>

definition releaseAgent ::
  "string \<Rightarrow> (AgentInfo \<Rightarrow> AgentInfo) \<Rightarrow> (string \<times> AgentInfo) list \<Rightarrow> (string \<times> AgentInfo) list" where
  "releaseAgent agentId count ags =
     (case map_of ags agentId of
        None \<Rightarrow> ags
      | Some agent \<Rightarrow>
          AList.update agentId
            (count (agent\<lparr>agent_status := Idle, currentTask := None, workingBranch := None\<rparr>)) ags)"

text \<open>
  \<open>completeTask\<close>.  \<open>Math.round((completedAt - startedAt) / 60000)\<close> rounds halves up,
  which on integers is \<open>(d + 30000) div 60000\<close>.
\<close>

definition completeTask :: "int \<Rightarrow> string \<Rightarrow> string \<Rightarrow> TaskResult \<Rightarrow> TaskServer \<Rightarrow> TaskServer" where
  "completeTask now taskId agentId res s =
     (case map_of (tasks s) taskId of
        None \<Rightarrow> s
      | Some task \<Rightarrow>
          if assignedAgent task \<noteq> Some agentId then s
          else
            let task1 = task\<lparr>task_status := Completed, completedAt := Some now, result := Some res\<rparr>;
                task2 = (case task_startedAt task1 of
                           None \<Rightarrow> task1
                         | Some st \<Rightarrow>
                             if st \<noteq> 0
                             then task1\<lparr>actualMinutes := Some ((now - st + 30000) div 60000)\<rparr>
                             else task1);
                lm = snd (releaseTaskLocks taskId (lockManager s));
                ags = releaseAgent agentId
                        (\<lambda>a. a\<lparr>agent_completedTasks := agent_completedTasks a + 1\<rparr>) (agents s)
            in unblockDependentTasks taskId
                 (s\<lparr>tasks := AList.update taskId task2 (tasks s),
                    lockManager := lm,
                    agents := ags,
                    completedTasks := completedTasks s @ [taskId]\<rparr>))"

definition failTask :: "int \<Rightarrow> string \<Rightarrow> string \<Rightarrow> string \<Rightarrow> TaskServer \<Rightarrow> TaskServer" where
  "failTask now taskId agentId err s =
     (case map_of (tasks s) taskId of
        None \<Rightarrow> s
      | Some task \<Rightarrow>
          if assignedAgent task \<noteq> Some agentId then s
          else
            let lm = snd (releaseTaskLocks taskId (lockManager s));
                retry = attempts task < maxAttempts task;
                task' = (if retry
                         then task\<lparr>task_status := Pending, assignedAgent := None,
                                    assignedAt := None, error := Some err\<rparr>
                         else task\<lparr>task_status := Failed, completedAt := Some now,
                                    error := Some err\<rparr>);
                ags = releaseAgent agentId (\<lambda>a. a\<lparr>failedTasks := failedTasks a + 1\<rparr>) (agents s)
            in s\<lparr>lockManager := lm,
                  tasks := AList.update taskId task' (tasks s),
                  taskQueue := (if retry then taskId # taskQueue s else taskQueue s),
                  agents := ags\<rparr>)"

subsection \<open>Messages and the heartbeat watchdog\<close>

definition handleAgentMessage ::
  "(string \<Rightarrow> string \<Rightarrow> string) \<Rightarrow> int \<Rightarrow> string \<Rightarrow> Message \<Rightarrow> TaskServer \<Rightarrow> TaskServer" where
  "handleAgentMessage rel now agentId message s =
     (case payload message of
        AGENT_HEARTBEAT status \<Rightarrow> updateHeartbeat now agentId status s
      | TASK_UPDATE \<Rightarrow> s
      | TASK_COMPLETE taskId res \<Rightarrow> completeTask now taskId agentId res s
      | TASK_FAILED taskId err \<Rightarrow> failTask now taskId agentId err s
      | LOCK_REQUEST request \<Rightarrow>
          s\<lparr>lockManager := snd (acquireLocks rel now request (lockManager s))\<rparr>
      | LOCK_RELEASE ps \<Rightarrow>
          s\<lparr>lockManager := snd (releaseLocks rel agentId ps (lockManager s))\<rparr>
      | AGENT_DISCONNECT \<Rightarrow> unregisterAgent agentId s
      | OTHER_MESSAGE \<Rightarrow> s)"

text \<open>
  One iteration of the loop of \<open>checkAgentHeartbeats\<close> over \<open>Object.values(state.agents)\<close>,
  for the agent stored under \<open>key\<close>.  \<open>unassignTask\<close> is called without \<open>await\<close>; all its
  updates of the state run before its first \<open>await\<close>, hence before the release of the
  agent's locks.
\<close>

definition heartbeatStep :: "int \<Rightarrow> string \<Rightarrow> TaskServer \<Rightarrow> TaskServer" where
  "heartbeatStep now key s =
     (case map_of (agents s) key of
        None \<Rightarrow> s
      | Some agent \<Rightarrow>
          let timeSinceHeartbeat = now - lastHeartbeat agent
          in if timeSinceHeartbeat > heartbeatTimeout (config s)
             then
               let s1 = s\<lparr>agents := AList.update key (agent\<lparr>agent_status := Offline\<rparr>) (agents s)\<rparr>;
                   s2 = (case currentTask agent of
                           None \<Rightarrow> s1
                         | Some t \<Rightarrow> if t \<noteq> [] then unassignTask t s1 else s1)
               in s2\<lparr>lockManager := snd (releaseAllLocks (agent_id agent) (lockManager s2))\<rparr>
             else s)"

definition checkAgentHeartbeats :: "int \<Rightarrow> TaskServer \<Rightarrow> TaskServer" where
  "checkAgentHeartbeats now s = fold (heartbeatStep now) (map fst (agents s)) s"

section \<open>Auxiliary notions for the proofs\<close>

text \<open>
  \<open>conflictAt\<close> is the test of the loop of \<open>acquireLocks\<close> that sends a path to \<open>failed\<close>:
  its normalized key carries a lock of another agent and the two lock types are not
  compatible.  \<open>holderAt\<close> is the holder reported in the conflict descriptor, and
  \<open>grantAll\<close> installs the fresh lock for each path of a list, in order.
\<close>

definition conflictAt ::
  "(string \<Rightarrow> string \<Rightarrow> string) \<Rightarrow> LockRequest \<Rightarrow> LockManager \<Rightarrow> string \<Rightarrow> bool" where
  "conflictAt rel request lm filePath =
     (case map_of (locks lm) (normalizePath rel (projectPath lm) filePath) of
        None \<Rightarrow> False
      | Some e \<Rightarrow> lock_agentId e \<noteq> req_agentId request
                  \<and> \<not> isCompatibleLock (lock_lockType e) (req_lockType request))"

definition holderAt :: "(string \<Rightarrow> string \<Rightarrow> string) \<Rightarrow> LockManager \<Rightarrow> string \<Rightarrow> string" where
  "holderAt rel lm filePath =
     (case map_of (locks lm) (normalizePath rel (projectPath lm) filePath) of
        None \<Rightarrow> []
      | Some e \<Rightarrow> lock_agentId e)"

definition grantAll ::
  "(string \<Rightarrow> string \<Rightarrow> string) \<Rightarrow> int \<Rightarrow> LockRequest \<Rightarrow> LockManager \<Rightarrow> string list \<Rightarrow>
   (string \<times> FileLock) list \<Rightarrow> (string \<times> FileLock) list" where
  "grantAll rel now request lm ps ls =
     fold (\<lambda>p. AList.update (normalizePath rel (projectPath lm) p)
                   (newLock now request lm (normalizePath rel (projectPath lm) p))) ps ls"

text \<open>\<open>ownedAt\<close> is the test of \<open>releaseLocks\<close>: the key carries a lock of the agent.\<close>

definition ownedAt :: "string \<Rightarrow> LockManager \<Rightarrow> string \<Rightarrow> bool" where
  "ownedAt agentId lm k =
     (case map_of (locks lm) k of None \<Rightarrow> False | Some lock \<Rightarrow> lock_agentId lock = agentId)"

subsection \<open>Concrete lock-manager inputs\<close>

text \<open>
  \<open>relInside\<close> is \<open>path.relative\<close> on a file below the root (it strips the root and the
  separator).  In \<open>heldManager\<close> agent \<open>A2\<close> holds a lock of the given type on \<open>x.ts\<close> for
  task \<open>t2\<close>, taken at time 0 and expiring at the given time.
\<close>

definition relInside :: "string \<Rightarrow> string \<Rightarrow> string" where
  "relInside root filePath = drop (Suc (length root)) filePath"

definition heldLock :: "string \<Rightarrow> LockType \<Rightarrow> int \<Rightarrow> FileLock" where
  "heldLock agentId ty deadline =
     \<lparr>path = ''x.ts'', lock_agentId = agentId, lock_taskId = ''t2'', lockedAt = 0,
      expiresAt = deadline, lock_lockType = ty\<rparr>"

definition emptyManager :: LockManager where
  "emptyManager = \<lparr>projectPath = ''/proj'', defaultTimeout = 300000, locks = [], persisted = []\<rparr>"

definition heldManager :: "string \<Rightarrow> LockType \<Rightarrow> int \<Rightarrow> LockManager" where
  "heldManager agentId ty deadline =
     emptyManager\<lparr>locks := [(''x.ts'', heldLock agentId ty deadline)],
                   persisted := [heldLock agentId ty deadline]\<rparr>"

definition lockRequest :: "string list \<Rightarrow> LockType \<Rightarrow> int option \<Rightarrow> LockRequest" where
  "lockRequest ps ty t =
     \<lparr>req_agentId = ''A1'', req_taskId = ''t1'', paths = ps, req_lockType = ty, timeoutMs = t\<rparr>"

subsection \<open>Concrete coordinator runs\<close>

text \<open>
  The default configuration, and runs of the public operations from the initial state.
  In \<open>assignedRun\<close> agent \<open>A1\<close> is registered, task \<open>t1\<close> on file \<open>x.ts\<close> is created and
  assigned to \<open>A1\<close>, all at time 0.
\<close>

definition defaultConfig :: ServerConfig where
  "defaultConfig =
     \<lparr>config_projectPath = ''/proj'', heartbeatTimeout = 30000, lockTimeout = 300000,
      gitIntegration = True, branchPrefix = ''agent/''\<rparr>"

definition noInfo :: AgentRegisterInfo where
  "noInfo = \<lparr>info_name = None, info_workingDirectory = None, info_capabilities = None\<rparr>"

definition taskOptions :: "string list option \<Rightarrow> string list option \<Rightarrow> TaskCreateOptions" where
  "taskOptions fs deps =
     \<lparr>opt_title = ''X'', opt_description = None, opt_priority = None, files = fs,
      opt_dependsOn = deps\<rparr>"

definition okResult :: TaskResult where
  "okResult =
     \<lparr>result_success = True, summary = ''done'', filesModified = [], filesCreated = [],
      filesDeleted = []\<rparr>"

definition assignedRun :: TaskServer where
  "assignedRun =
     snd (assignTask relInside 0 ''t1'' ''A1''
       (snd (createTask 0 ''t1'' (taskOptions (Some [''x.ts'']) None)
         (snd (registerAgent 0 ''A1'' noInfo (createInitialState defaultConfig))))))"

text \<open>
  In \<open>completedRun\<close> agent \<open>A1\<close> has completed \<open>t1\<close> at time 1000; in \<open>twoTaskRun\<close> a second
  task \<open>t2\<close> on the same file has then been created.
\<close>

definition completedRun :: TaskServer where
  "completedRun = completeTask 1000 ''t1'' ''A1'' okResult assignedRun"

definition twoTaskRun :: TaskServer where
  "twoTaskRun = snd (createTask 2000 ''t2'' (taskOptions (Some [''x.ts'']) None) completedRun)"

text \<open>
  \<open>overAssignedRun\<close>: after the first assignment, \<open>t1\<close> is three times unassigned (as the
  watchdog does for a silent agent) and assigned again, which leaves \<open>attempts = 4\<close> with
  \<open>maxAttempts = 3\<close>.
\<close>

definition reassign :: "TaskServer \<Rightarrow> TaskServer" where
  "reassign s = snd (assignTask relInside 0 ''t1'' ''A1'' (unassignTask ''t1'' s))"

definition overAssignedRun :: TaskServer where
  "overAssignedRun = reassign (reassign (reassign assignedRun))"

text \<open>
  \<open>conflictRun\<close>: agents \<open>A1\<close> and \<open>A2\<close>; task \<open>t1\<close> on \<open>y.ts\<close> is assigned to \<open>A1\<close> at time
  0 (its lock expires at 300000), and at time 200000 a \<open>LOCK_REQUEST\<close> of \<open>A1\<close> is granted
  a lock on \<open>x.ts\<close>, the file of the pending task \<open>t2\<close>.
\<close>

definition lockMessage :: Message where
  "lockMessage =
     \<lparr>message_id = ''m1'', timestamp = 200000, source = ''A1'',
      payload = LOCK_REQUEST (lockRequest [''x.ts''] Write None)\<rparr>"

definition conflictRun :: TaskServer where
  "conflictRun =
     handleAgentMessage relInside 200000 ''A1'' lockMessage
       (snd (assignTask relInside 0 ''t1'' ''A1''
         (snd (createTask 0 ''t2'' (taskOptions (Some [''x.ts'']) None)
           (snd (createTask 0 ''t1'' (taskOptions (Some [''y.ts'']) None)
             (snd (registerAgent 0 ''A2'' noInfo
               (snd (registerAgent 0 ''A1'' noInfo (createInitialState defaultConfig)))))))))))"

text \<open>
  \<open>ghostRun\<close>: task \<open>t2\<close> is created with \<open>dependsOn = ['ghost']\<close>, an id of no task, then
  assigned to \<open>A1\<close> and completed.  \<open>dupRun\<close>: while \<open>t1\<close> is assigned, task \<open>t3\<close> is created
  with \<open>dependsOn = ['t1', 't1']\<close>; then \<open>t1\<close> is completed.
\<close>

definition ghostRun :: TaskServer where
  "ghostRun =
     completeTask 1000 ''t2'' ''A1'' okResult
       (snd (assignTask relInside 0 ''t2'' ''A1''
         (snd (createTask 0 ''t2'' (taskOptions None (Some [''ghost'']))
           (snd (registerAgent 0 ''A1'' noInfo (createInitialState defaultConfig)))))))"

definition dupRun :: TaskServer where
  "dupRun =
     completeTask 1000 ''t1'' ''A1'' okResult
       (snd (createTask 500 ''t3'' (taskOptions None (Some [''t1'', ''t1''])) assignedRun))"

definition completeMessage :: Message where
  "completeMessage =
     \<lparr>message_id = ''m2'', timestamp = 1000, source = ''A1'',
      payload = TASK_COMPLETE ''t1'' okResult\<rparr>"

definition failMessage :: Message where
  "failMessage =
     \<lparr>message_id = ''m3'', timestamp = 5000, source = ''A1'',
      payload = TASK_FAILED ''t1'' ''boom''\<rparr>"

text \<open>
  \<open>inheritedRun\<close>: with \<open>A1\<close> registered, task \<open>t4\<close> is created with
  \<open>dependsOn = ['constructor']\<close>, the name of a property that \<open>state.tasks\<close> inherits.
\<close>

definition inheritedRun :: TaskServer where
  "inheritedRun =
     snd (createTask 0 ''t4'' (taskOptions None (Some [''constructor'']))
       (snd (registerAgent 0 ''A1'' noInfo (createInitialState defaultConfig))))"

section \<open>Lemmas about the lock manager\<close>

lemma acquireStep_eq:
  "acquireStep rel now request p (lm, acq, fld, cfl) =
     (if conflictAt rel request lm p
      then (lm, acq, fld @ [p], cfl @ [\<lparr>conflict_path = p, heldBy = holderAt rel lm p\<rparr>])
      else (lm\<lparr>locks := AList.update (normalizePath rel (projectPath lm) p)
                   (newLock now request lm (normalizePath rel (projectPath lm) p)) (locks lm)\<rparr>,
            acq @ [p], fld, cfl))"
  by (simp add: acquireStep_def conflictAt_def holderAt_def Let_def split: option.splits)

lemma newLock_locks_upd [simp]: "newLock now request (lm\<lparr>locks := ls\<rparr>) k = newLock now request lm k"
  by (simp add: newLock_def leaseLength_def split: option.splits)

lemma conflictAt_grant:
  assumes "\<not> conflictAt rel request lm p"
  shows "conflictAt rel request
           (lm\<lparr>locks := AList.update (normalizePath rel (projectPath lm) p)
                   (newLock now request lm (normalizePath rel (projectPath lm) p)) (locks lm)\<rparr>) q
         = conflictAt rel request lm q"
  using assms
  by (auto simp: conflictAt_def update_conv newLock_def split: option.splits)

lemma holderAt_grant:
  assumes "conflictAt rel request lm q" "\<not> conflictAt rel request lm p"
  shows "holderAt rel
           (lm\<lparr>locks := AList.update (normalizePath rel (projectPath lm) p)
                   (newLock now request lm (normalizePath rel (projectPath lm) p)) (locks lm)\<rparr>) q
         = holderAt rel lm q"
  using assms
  by (auto simp: conflictAt_def holderAt_def update_conv newLock_def split: option.splits)

lemma acquire_fold:
  "fold (acquireStep rel now request) ps (lm, acq, fld, cfl) =
     (lm\<lparr>locks := grantAll rel now request lm
                      (filter (\<lambda>p. \<not> conflictAt rel request lm p) ps) (locks lm)\<rparr>,
      acq @ filter (\<lambda>p. \<not> conflictAt rel request lm p) ps,
      fld @ filter (conflictAt rel request lm) ps,
      cfl @ map (\<lambda>p. \<lparr>conflict_path = p, heldBy = holderAt rel lm p\<rparr>)
              (filter (conflictAt rel request lm) ps))"
proof (induction ps arbitrary: lm acq fld cfl)
  case Nil
  show ?case by (simp add: grantAll_def)
next
  case (Cons p ps)
  show ?case
  proof (cases "conflictAt rel request lm p")
    case True
    then show ?thesis
      by (simp add: acquireStep_eq Cons.IH)
  next
    case False
    have h: "\<And>q. conflictAt rel request lm q \<Longrightarrow> holderAt rel
           (lm\<lparr>locks := AList.update (normalizePath rel (projectPath lm) p)
                   (newLock now request lm (normalizePath rel (projectPath lm) p)) (locks lm)\<rparr>) q
         = holderAt rel lm q"
      using False by (rule holderAt_grant[rotated])
    from False show ?thesis
      by (simp add: acquireStep_eq Cons.IH conflictAt_grant grantAll_def h cong: map_cong)
  qed
qed


lemma grantAll_map_of:
  "map_of (grantAll rel now request lm ps ls) k =
     (if k \<in> normalizePath rel (projectPath lm) ` set ps
      then Some (newLock now request lm k) else map_of ls k)"
  unfolding grantAll_def
  by (induction ps arbitrary: ls) (auto simp: update_conv)

lemma grantAll_distinct:
  "distinct (map fst ls) \<Longrightarrow> distinct (map fst (grantAll rel now request lm ps ls))"
  unfolding grantAll_def
  by (induction ps arbitrary: ls) (auto simp: distinct_update)

lemma cleanExpiredLocks_locks:
  "locks (snd (cleanExpiredLocks now lm)) = filter (\<lambda>(p, lock). \<not> now > expiresAt lock) (locks lm)"
  by (simp add: cleanExpiredLocks_def Let_def saveLocks_def)

lemma cleanExpiredLocks_fields [simp]:
  "projectPath (snd (cleanExpiredLocks now lm)) = projectPath lm"
  "defaultTimeout (snd (cleanExpiredLocks now lm)) = defaultTimeout lm"
  by (simp_all add: cleanExpiredLocks_def Let_def saveLocks_def)

lemma acquireLocks_eq:
  "acquireLocks rel now request lm =
     (let lm0 = snd (cleanExpiredLocks now lm);
          acq = filter (\<lambda>p. \<not> conflictAt rel request lm0 p) (paths request);
          fld = filter (conflictAt rel request lm0) (paths request);
          lm' = lm0\<lparr>locks := grantAll rel now request lm0 acq (locks lm0)\<rparr>
      in (\<lparr>success = (fld = []), acquired = acq, failed = fld,
           conflicts = (if fld = [] then None
                        else Some (map (\<lambda>p. \<lparr>conflict_path = p, heldBy = holderAt rel lm0 p\<rparr>) fld))\<rparr>,
          if acq = [] then lm' else saveLocks lm'))"
  by (simp add: acquireLocks_def acquire_fold Let_def)


lemma filter_update_in:
  "k \<in> K \<Longrightarrow> filter (\<lambda>(k', v). k' \<notin> K) (AList.update k v ls) = filter (\<lambda>(k', v). k' \<notin> K) ls"
  by (induction ls) auto

lemma grantAll_filter:
  "normalizePath rel (projectPath lm) ` set ps \<subseteq> K \<Longrightarrow>
   filter (\<lambda>(k', v). k' \<notin> K) (grantAll rel now request lm ps ls) = filter (\<lambda>(k', v). k' \<notin> K) ls"
  unfolding grantAll_def
  by (induction ps arbitrary: ls) (auto simp: filter_update_in)

lemma releaseStep_fields [simp]:
  "projectPath (fst (releaseStep rel agentId p st)) = projectPath (fst st)"
  by (cases st) (simp add: releaseStep_def Let_def split: option.splits)

lemma release_fold_locks:
  assumes "\<forall>k\<in>normalizePath rel (projectPath lm) ` set ps. \<forall>l. map_of (locks lm) k = Some l \<longrightarrow> lock_agentId l = agentId"
  shows "locks (fst (fold (releaseStep rel agentId) ps (lm, released))) =
         filter (\<lambda>(k, v). k \<notin> normalizePath rel (projectPath lm) ` set ps) (locks lm)"
  using assms
proof (induction ps arbitrary: lm released)
  case Nil
  then show ?case by simp
next
  case (Cons p ps)
  let ?k = "normalizePath rel (projectPath lm) p"
  show ?case
  proof (cases "map_of (locks lm) ?k")
    case None
    then have notin: "?k \<notin> fst ` set (locks lm)"
      by (simp add: map_of_eq_None_iff)
    have step: "releaseStep rel agentId p (lm, released) = (lm, released)"
      using None by (simp add: releaseStep_def)
    have "filter (\<lambda>(k, v). k \<notin> normalizePath rel (projectPath lm) ` set (p # ps)) (locks lm)
        = filter (\<lambda>(k, v). k \<notin> normalizePath rel (projectPath lm) ` set ps) (locks lm)"
      using notin by (intro filter_cong) (auto simp: image_iff)
    with Cons step show ?thesis by simp
  next
    case (Some l)
    with Cons.prems have own: "lock_agentId l = agentId" by simp
    have step: "releaseStep rel agentId p (lm, released)
        = (lm\<lparr>locks := AList.delete ?k (locks lm)\<rparr>, released @ [p])"
      using Some own by (simp add: releaseStep_def)
    have pre: "\<forall>k\<in>normalizePath rel (projectPath (lm\<lparr>locks := AList.delete ?k (locks lm)\<rparr>)) ` set ps.
        \<forall>l. map_of (locks (lm\<lparr>locks := AList.delete ?k (locks lm)\<rparr>)) k = Some l \<longrightarrow> lock_agentId l = agentId"
      using Cons.prems by (auto simp: delete_conv split: if_splits)
    have "locks (fst (fold (releaseStep rel agentId) ps (lm\<lparr>locks := AList.delete ?k (locks lm)\<rparr>, released @ [p])))
        = filter (\<lambda>(k, v). k \<notin> normalizePath rel (projectPath lm) ` set ps) (AList.delete ?k (locks lm))"
      using Cons.IH[OF pre] by simp
    also have "\<dots> = filter (\<lambda>(k, v). k \<notin> normalizePath rel (projectPath lm) ` set (p # ps)) (locks lm)"
      by (auto simp: AList.delete_eq intro: filter_cong)
    finally show ?thesis using step by simp
  qed
qed

lemma releaseLocks_locks:
  "locks (snd (releaseLocks rel agentId ps lm)) = locks (fst (fold (releaseStep rel agentId) ps (lm, [])))"
  by (simp add: releaseLocks_def saveLocks_def split: prod.splits)

lemma acquireLocks_locks:
  "locks (snd (acquireLocks rel now request lm)) =
     grantAll rel now request (snd (cleanExpiredLocks now lm))
       (filter (\<lambda>p. \<not> conflictAt rel request (snd (cleanExpiredLocks now lm)) p) (paths request))
       (locks (snd (cleanExpiredLocks now lm)))"
  by (simp add: acquireLocks_eq Let_def saveLocks_def)

lemma acquireLocks_acquired:
  "acquired (fst (acquireLocks rel now request lm)) =
     filter (\<lambda>p. \<not> conflictAt rel request (snd (cleanExpiredLocks now lm)) p) (paths request)"
  by (simp add: acquireLocks_eq Let_def)

lemma acquireLocks_projectPath [simp]:
  "projectPath (snd (acquireLocks rel now request lm)) = projectPath lm"
  by (simp add: acquireLocks_eq Let_def saveLocks_def)

lemma conflictAt_same_key:
  "normalizePath rel (projectPath lm) p = normalizePath rel (projectPath lm) q \<Longrightarrow>
   conflictAt rel request lm p = conflictAt rel request lm q"
  by (simp add: conflictAt_def)

lemma map_of_filter_distinct:
  assumes "distinct (map fst ls)" "map_of (filter P ls) k = Some v"
  shows "map_of ls k = Some v \<and> P (k, v)"
proof -
  from assms(2) have "(k, v) \<in> set (filter P ls)" by (rule map_of_SomeD)
  then have "(k, v) \<in> set ls" "P (k, v)" by auto
  with assms(1) show ?thesis by simp
qed

lemma swept_lookup:
  assumes "distinct (map fst (locks lm))"
    and "map_of (locks (snd (cleanExpiredLocks now lm))) k = Some e"
  shows "map_of (locks lm) k = Some e \<and> \<not> now > expiresAt e"
  using map_of_filter_distinct[OF assms(1), of "\<lambda>(p, lock). \<not> now > expiresAt lock" k e] assms(2)
  by (simp add: cleanExpiredLocks_locks)

lemma swept_lookup_live:
  assumes "map_of (locks lm) k = Some e" "\<not> now > expiresAt e"
  shows "map_of (locks (snd (cleanExpiredLocks now lm))) k = Some e"
  using assms map_of_filter_in[of "locks lm" k e "\<lambda>p lock. \<not> now > expiresAt lock"]
  by (simp add: cleanExpiredLocks_locks)

lemma swept_distinct:
  "distinct (map fst (locks lm)) \<Longrightarrow> distinct (map fst (locks (snd (cleanExpiredLocks now lm))))"
  by (simp add: cleanExpiredLocks_locks distinct_map_filter)

lemma newLock_swept [simp]:
  "newLock now request (snd (cleanExpiredLocks now' lm)) k = newLock now request lm k"
  by (simp add: newLock_def leaseLength_def split: option.splits)

section \<open>Claims about the lock manager\<close>

lemmas lock_eval =
  acquireLocks_def cleanExpiredLocks_def acquireStep_def lockRequest_def heldManager_def
  heldLock_def emptyManager_def normalizePath_def isAbsolute_def isCompatibleLock_def
  newLock_def leaseLength_def saveLocks_def Let_def releaseLocks_def releaseStep_def
  isLocked_def getAllLocks_def checkConflicts_def loadLocks_def relInside_def

subsection \<open>C6: the postcondition of \<open>acquireLocks\<close>\<close>

text \<open>
  C6, as stated, gives a granted lock the deadline \<open>now + (request.timeoutMs ?? defaultTimeout)\<close>.
  The code computes \<open>request.timeoutMs || this.defaultTimeout\<close>, so a request with
  \<open>timeoutMs = 0\<close> receives the default lease and not a lease of length 0: on an empty
  table with default 300000, a request at time 1000 with \<open>timeoutMs = 0\<close> is granted a
  lock expiring at 301000, not at 1000.
\<close>

theorem acquireLocks_zero_timeout_counterexample:
  "map_option expiresAt
     (map_of (locks (snd (acquireLocks relInside 1000 (lockRequest [''y.ts''] Write (Some 0))
                            emptyManager))) ''y.ts'') = Some 301000
   \<and> map_option expiresAt
     (map_of (locks (snd (acquireLocks relInside 1000 (lockRequest [''y.ts''] Write (Some 0))
                            emptyManager))) ''y.ts'')
       \<noteq> Some (1000 + (case Some 0 of None \<Rightarrow> defaultTimeout emptyManager | Some t \<Rightarrow> t))"
  by (simp add: lock_eval)

text \<open>
  C6 (amended): for a lock table with one record per key, after the sweep of expired
  locks every requested path is either listed in \<open>acquired\<close> (and not in \<open>failed\<close>) and
  its normalized key carries a new lock of the requester with \<open>lockedAt = now\<close> and
  \<open>expiresAt = now + t\<close>, where \<open>t\<close> is \<open>request.timeoutMs\<close> when that is present and
  not 0 and \<open>defaultTimeout\<close> otherwise; or it is listed in \<open>failed\<close> (and not in
  \<open>acquired\<close>), its key carries a lock that is not swept (\<open>now > expiresAt\<close> is false),
  is held by another agent and is incompatible, that lock is still in the table, and
  \<open>conflicts\<close> holds the descriptor \<open>{path, heldBy}\<close>.  Whenever the key of a requested
  path carries an unexpired lock (\<open>expiresAt > now\<close>) that is held by another agent and is
  incompatible, the path is listed in \<open>failed\<close> and not in \<open>acquired\<close>.  \<open>acquired\<close> and
  \<open>failed\<close> split \<open>request.paths\<close>, each in the order of the request; \<open>conflicts\<close> is
  undefined when \<open>failed\<close> is empty and has otherwise one descriptor per failed path, in
  order; an unexpired lock on a key that no acquired path has stays as it is.  \<open>success\<close>
  is true exactly when \<open>failed\<close> is empty, and whenever a path was acquired the table,
  granted locks included, is written to \<open>active.json\<close>, whatever \<open>success\<close> is.
\<close>

theorem acquireLocks_postcondition:
  assumes dist: "distinct (map fst (locks lm))"
      and run: "acquireLocks rel now request lm = (res, lm')"
  shows "(\<forall>p\<in>set (paths request).
           (p \<in> set (acquired res) \<and> p \<notin> set (failed res) \<and>
            map_of (locks lm') (normalizePath rel (projectPath lm) p) =
              Some \<lparr>path = normalizePath rel (projectPath lm) p,
                    lock_agentId = req_agentId request,
                    lock_taskId = req_taskId request,
                    lockedAt = now,
                    expiresAt = now + (case timeoutMs request of
                                         None \<Rightarrow> defaultTimeout lm
                                       | Some t \<Rightarrow> if t = 0 then defaultTimeout lm else t),
                    lock_lockType = req_lockType request\<rparr>)
         \<or> (p \<in> set (failed res) \<and> p \<notin> set (acquired res) \<and>
            (\<exists>e cs. map_of (locks lm) (normalizePath rel (projectPath lm) p) = Some e
                \<and> \<not> now > expiresAt e
                \<and> lock_agentId e \<noteq> req_agentId request
                \<and> \<not> isCompatibleLock (lock_lockType e) (req_lockType request)
                \<and> map_of (locks lm') (normalizePath rel (projectPath lm) p) = Some e
                \<and> conflicts res = Some cs
                \<and> \<lparr>conflict_path = p, heldBy = lock_agentId e\<rparr> \<in> set cs)))
       \<and> (\<forall>p\<in>set (paths request). \<forall>e.
             map_of (locks lm) (normalizePath rel (projectPath lm) p) = Some e
             \<and> expiresAt e > now
             \<and> lock_agentId e \<noteq> req_agentId request
             \<and> \<not> isCompatibleLock (lock_lockType e) (req_lockType request)
             \<longrightarrow> p \<in> set (failed res) \<and> p \<notin> set (acquired res))
       \<and> acquired res = filter (\<lambda>p. p \<notin> set (failed res)) (paths request)
       \<and> failed res = filter (\<lambda>p. p \<in> set (failed res)) (paths request)
       \<and> (case conflicts res of
             None \<Rightarrow> failed res = []
           | Some cs \<Rightarrow> failed res \<noteq> [] \<and> map conflict_path cs = failed res)
       \<and> (\<forall>k e. k \<notin> normalizePath rel (projectPath lm) ` set (acquired res)
                 \<and> map_of (locks lm) k = Some e \<and> expiresAt e > now
             \<longrightarrow> map_of (locks lm') k = Some e)
       \<and> success res = (failed res = [])
       \<and> (acquired res \<noteq> [] \<longrightarrow> persisted lm' = map snd (locks lm'))"
proof -
  let ?np = "normalizePath rel (projectPath lm)"
  let ?lm0 = "snd (cleanExpiredLocks now lm)"
  let ?C = "conflictAt rel request ?lm0"
  let ?acq = "filter (\<lambda>p. \<not> ?C p) (paths request)"
  let ?fld = "filter ?C (paths request)"
  have res: "acquired res = ?acq" "failed res = ?fld" "success res = (?fld = [])"
    "conflicts res = (if ?fld = [] then None
        else Some (map (\<lambda>p. \<lparr>conflict_path = p, heldBy = holderAt rel ?lm0 p\<rparr>) ?fld))"
    using run by (auto simp: acquireLocks_eq Let_def)
  have lk: "locks lm' = grantAll rel now request ?lm0 ?acq (locks ?lm0)"
    using run by (auto simp: acquireLocks_eq Let_def saveLocks_def split: if_splits)
  have pers: "acquired res \<noteq> [] \<longrightarrow> persisted lm' = map snd (locks lm')"
    using run by (auto simp: acquireLocks_eq Let_def saveLocks_def split: if_splits)
  have each: "(p \<in> set (acquired res) \<and> p \<notin> set (failed res) \<and>
            map_of (locks lm') (?np p) =
              Some \<lparr>path = ?np p,
                    lock_agentId = req_agentId request,
                    lock_taskId = req_taskId request,
                    lockedAt = now,
                    expiresAt = now + (case timeoutMs request of
                                         None \<Rightarrow> defaultTimeout lm
                                       | Some t \<Rightarrow> if t = 0 then defaultTimeout lm else t),
                    lock_lockType = req_lockType request\<rparr>)
         \<or> (p \<in> set (failed res) \<and> p \<notin> set (acquired res) \<and>
            (\<exists>e cs. map_of (locks lm) (?np p) = Some e
                \<and> \<not> now > expiresAt e
                \<and> lock_agentId e \<noteq> req_agentId request
                \<and> \<not> isCompatibleLock (lock_lockType e) (req_lockType request)
                \<and> map_of (locks lm') (?np p) = Some e
                \<and> conflicts res = Some cs
                \<and> \<lparr>conflict_path = p, heldBy = lock_agentId e\<rparr> \<in> set cs))"
    if p: "p \<in> set (paths request)" for p
  proof (cases "?C p")
    case False
    with p have "p \<in> set ?acq" "p \<notin> set ?fld" by auto
    moreover have "map_of (locks lm') (?np p) = Some (newLock now request lm (?np p))"
      using \<open>p \<in> set ?acq\<close> by (simp add: lk grantAll_map_of image_iff) blast
    ultimately show ?thesis
      by (simp add: res newLock_def leaseLength_def)
  next
    case True
    with p have in_f: "p \<in> set ?fld" "p \<notin> set ?acq" by auto
    from True obtain e where e: "map_of (locks ?lm0) (?np p) = Some e"
      "lock_agentId e \<noteq> req_agentId request"
      "\<not> isCompatibleLock (lock_lockType e) (req_lockType request)"
      by (auto simp: conflictAt_def split: option.splits)
    from swept_lookup[OF dist e(1)] have e0: "map_of (locks lm) (?np p) = Some e" "\<not> now > expiresAt e"
      by simp_all
    have "?np p \<notin> ?np ` set ?acq"
    proof
      assume "?np p \<in> ?np ` set ?acq"
      then obtain q where "q \<in> set ?acq" "?np p = ?np q" by auto
      then have "\<not> ?C q" "?C p = ?C q"
        using conflictAt_same_key[of rel ?lm0 p q request] by auto
      with True show False by simp
    qed
    then have after: "map_of (locks lm') (?np p) = Some e"
      by (simp add: lk grantAll_map_of e(1))
    have h: "holderAt rel ?lm0 p = lock_agentId e"
      using e(1) by (simp add: holderAt_def)
    have "?fld \<noteq> []" using in_f(1) by (metis empty_iff list.set(1))
    then have "conflicts res = Some (map (\<lambda>p. \<lparr>conflict_path = p, heldBy = holderAt rel ?lm0 p\<rparr>) ?fld)"
      by (simp add: res)
    moreover have "\<lparr>conflict_path = p, heldBy = lock_agentId e\<rparr>
        \<in> set (map (\<lambda>p. \<lparr>conflict_path = p, heldBy = holderAt rel ?lm0 p\<rparr>) ?fld)"
      using in_f(1) h by (auto simp: image_iff intro!: bexI[of _ p])
    ultimately show ?thesis
      using in_f e e0 after by (simp add: res)
  qed
  have refused: "p \<in> set (failed res) \<and> p \<notin> set (acquired res)"
    if p: "p \<in> set (paths request)"
      and e: "map_of (locks lm) (?np p) = Some e \<and> expiresAt e > now
              \<and> lock_agentId e \<noteq> req_agentId request
              \<and> \<not> isCompatibleLock (lock_lockType e) (req_lockType request)"
    for p e
  proof -
    from e have "map_of (locks lm) (?np p) = Some e" "\<not> now > expiresAt e" by simp_all
    then have "map_of (locks ?lm0) (?np p) = Some e" by (rule swept_lookup_live)
    with e have "?C p" by (simp add: conflictAt_def)
    with p show ?thesis by (simp add: res)
  qed
  have split_acq: "acquired res = filter (\<lambda>p. p \<notin> set (failed res)) (paths request)"
    unfolding res by (rule filter_cong) auto
  have split_fld: "failed res = filter (\<lambda>p. p \<in> set (failed res)) (paths request)"
    unfolding res by (rule filter_cong) auto
  have descr: "(case conflicts res of
             None \<Rightarrow> failed res = []
           | Some cs \<Rightarrow> failed res \<noteq> [] \<and> map conflict_path cs = failed res)"
    by (simp add: res comp_def)
  have kept: "map_of (locks lm') k = Some e"
    if "k \<notin> ?np ` set (acquired res) \<and> map_of (locks lm) k = Some e \<and> expiresAt e > now"
    for k e
  proof -
    from that have "map_of (locks lm) k = Some e" "\<not> now > expiresAt e" by simp_all
    then have "map_of (locks ?lm0) k = Some e" by (rule swept_lookup_live)
    moreover from that have "k \<notin> ?np ` set ?acq" by (simp add: res)
    ultimately show ?thesis by (simp add: lk grantAll_map_of)
  qed
  show ?thesis
  proof (intro conjI)
    show "\<forall>p\<in>set (paths request). \<forall>e.
             map_of (locks lm) (?np p) = Some e
             \<and> expiresAt e > now
             \<and> lock_agentId e \<noteq> req_agentId request
             \<and> \<not> isCompatibleLock (lock_lockType e) (req_lockType request)
             \<longrightarrow> p \<in> set (failed res) \<and> p \<notin> set (acquired res)"
      using refused by blast
    show "acquired res = filter (\<lambda>p. p \<notin> set (failed res)) (paths request)"
      by (rule split_acq)
    show "failed res = filter (\<lambda>p. p \<in> set (failed res)) (paths request)"
      by (rule split_fld)
    show "case conflicts res of
             None \<Rightarrow> failed res = []
           | Some cs \<Rightarrow> failed res \<noteq> [] \<and> map conflict_path cs = failed res"
      by (rule descr)
    show "\<forall>k e. k \<notin> ?np ` set (acquired res)
                 \<and> map_of (locks lm) k = Some e \<and> expiresAt e > now
             \<longrightarrow> map_of (locks lm') k = Some e"
      using kept by blast
    show "success res = (failed res = [])" by (simp add: res)
    show "acquired res \<noteq> [] \<longrightarrow> persisted lm' = map snd (locks lm')" by (rule pers)
  qed (intro ballI, rule each)
qed

theorem acquireLocks_postcondition_witness:
  "distinct (map fst (locks (heldManager ''A2'' Write 5000)))
   \<and> map_of (locks (heldManager ''A2'' Write 5000)) ''x.ts'' = Some (heldLock ''A2'' Write 5000)
   \<and> expiresAt (heldLock ''A2'' Write 5000) > 1000
   \<and> acquired (fst (acquireLocks relInside 1000
           (lockRequest [''x.ts'', ''/proj/y.ts''] Write None) (heldManager ''A2'' Write 5000)))
       = [''/proj/y.ts'']
   \<and> map_of (locks (snd (acquireLocks relInside 1000
           (lockRequest [''x.ts'', ''/proj/y.ts''] Write None) (heldManager ''A2'' Write 5000)))) ''y.ts''
       = Some \<lparr>path = ''y.ts'', lock_agentId = ''A1'', lock_taskId = ''t1'', lockedAt = 1000,
                expiresAt = 301000, lock_lockType = Write\<rparr>
   \<and> failed (fst (acquireLocks relInside 1000
           (lockRequest [''x.ts'', ''/proj/y.ts''] Write None) (heldManager ''A2'' Write 5000)))
       = [''x.ts'']
   \<and> map_of (locks (snd (acquireLocks relInside 1000
           (lockRequest [''x.ts'', ''/proj/y.ts''] Write None) (heldManager ''A2'' Write 5000)))) ''x.ts''
       = Some (heldLock ''A2'' Write 5000)
   \<and> conflicts (fst (acquireLocks relInside 1000
           (lockRequest [''x.ts'', ''/proj/y.ts''] Write None) (heldManager ''A2'' Write 5000)))
       = Some [\<lparr>conflict_path = ''x.ts'', heldBy = ''A2''\<rparr>]
   \<and> \<not> success (fst (acquireLocks relInside 1000
           (lockRequest [''x.ts'', ''/proj/y.ts''] Write None) (heldManager ''A2'' Write 5000)))
   \<and> persisted (snd (acquireLocks relInside 1000
           (lockRequest [''x.ts'', ''/proj/y.ts''] Write None) (heldManager ''A2'' Write 5000)))
       = map snd (locks (snd (acquireLocks relInside 1000
           (lockRequest [''x.ts'', ''/proj/y.ts''] Write None) (heldManager ''A2'' Write 5000))))"
proof -
  let ?run = "acquireLocks relInside 1000 (lockRequest [''x.ts'', ''/proj/y.ts''] Write None)
                (heldManager ''A2'' Write 5000)"
  have dist: "distinct (map fst (locks (heldManager ''A2'' Write 5000)))"
    by (simp add: lock_eval)
  have run: "?run = (fst ?run, snd ?run)"
    by simp
  from acquireLocks_postcondition[OF dist run] show ?thesis
    by (simp add: lock_eval)
qed

subsection \<open>C7: the expiry boundary\<close>

text \<open>
  C7: a lock whose \<open>expiresAt\<close> equals the current time is treated as expired.  The
  sweep \<open>cleanExpiredLocks\<close> and \<open>isLocked\<close> test \<open>now > lock.expiresAt\<close>, so at
  \<open>now = expiresAt = 1000\<close> the lock of agent \<open>A2\<close> on \<open>x.ts\<close> is reported as locked, is
  returned by \<open>getAllLocks\<close>, is reported as a conflict by \<open>checkConflicts\<close> and makes
  \<open>acquireLocks\<close> fail for agent \<open>A1\<close>; whereas \<open>loadLocks\<close>, which keeps ``only
  non-expired locks'' by the test \<open>Date.now() < lock.expiresAt\<close>, drops the same lock at
  the same time.
\<close>

theorem boundary_lock_is_kept:
  "fst (isLocked relInside 1000 ''x.ts'' (heldManager ''A2'' Write 1000)) = True
   \<and> fst (getAllLocks 1000 (heldManager ''A2'' Write 1000)) = [heldLock ''A2'' Write 1000]
   \<and> fst (checkConflicts relInside 1000 ''A1'' [''x.ts''] (heldManager ''A2'' Write 1000))
       = [\<lparr>conflict_path = ''x.ts'', heldBy = ''A2''\<rparr>]
   \<and> failed (fst (acquireLocks relInside 1000 (lockRequest [''x.ts''] Write None)
                     (heldManager ''A2'' Write 1000))) = [''x.ts'']
   \<and> locks (loadLocks 1000 [heldLock ''A2'' Write 1000] emptyManager) = []"
  by (simp add: lock_eval)

subsection \<open>C8: acquire followed by release\<close>

text \<open>
  C8, as stated, fails when the requester already holds the path: \<open>acquireLocks\<close>
  replaces its lock, and the release deletes the replacement, so the lock that was in
  the table before the acquire is gone.
\<close>

theorem acquire_release_counterexample:
  "locks (snd (releaseLocks relInside ''A1''
            (acquired (fst (acquireLocks relInside 1000 (lockRequest [''x.ts''] Write None)
                              (heldManager ''A1'' Write 5000))))
            (snd (acquireLocks relInside 1000 (lockRequest [''x.ts''] Write None)
                    (heldManager ''A1'' Write 5000)))))
     \<noteq> locks (heldManager ''A1'' Write 5000)"
  by (simp add: lock_eval)

text \<open>
  C8 (amended): if no lock of the table is swept at \<open>now\<close> (\<open>now > expiresAt\<close> holds for
  none) and every requested path whose normalized key already carries a lock is in
  conflict (the lock is held by another agent and is incompatible), so that every
  granted path was unlocked, then \<open>acquireLocks(req)\<close> followed by
  \<open>releaseLocks(req.agentId, acquired)\<close> restores the lock table, order included.
\<close>

theorem acquire_release_roundtrip:
  assumes live: "\<forall>(k, l)\<in>set (locks lm). \<not> now > expiresAt l"
    and free: "\<forall>p\<in>set (paths request). \<forall>e.
                 map_of (locks lm) (normalizePath rel (projectPath lm) p) = Some e \<longrightarrow>
                 lock_agentId e \<noteq> req_agentId request
                 \<and> \<not> isCompatibleLock (lock_lockType e) (req_lockType request)"
  shows "locks (snd (releaseLocks rel (req_agentId request)
                      (acquired (fst (acquireLocks rel now request lm)))
                      (snd (acquireLocks rel now request lm)))) = locks lm"
proof -
  let ?np = "normalizePath rel (projectPath lm)"
  let ?lm0 = "snd (cleanExpiredLocks now lm)"
  let ?acq = "filter (\<lambda>p. \<not> conflictAt rel request ?lm0 p) (paths request)"
  let ?lm1 = "snd (acquireLocks rel now request lm)"
  have l0: "locks ?lm0 = locks lm"
    using live by (auto simp: cleanExpiredLocks_locks filter_id_conv)
  have l1: "locks ?lm1 = grantAll rel now request ?lm0 ?acq (locks lm)"
    by (simp add: acquireLocks_locks l0)
  have own: "\<forall>k\<in>normalizePath rel (projectPath ?lm1) ` set ?acq.
      \<forall>l. map_of (locks ?lm1) k = Some l \<longrightarrow> lock_agentId l = req_agentId request"
    by (auto simp: l1 grantAll_map_of newLock_def)
  have fresh: "\<forall>p\<in>set ?acq. ?np p \<notin> fst ` set (locks lm)"
  proof
    fix p assume p: "p \<in> set ?acq"
    then have "map_of (locks lm) (?np p) = None"
      using free by (cases "map_of (locks lm) (?np p)") (auto simp: conflictAt_def l0)
    then show "?np p \<notin> fst ` set (locks lm)" by (simp add: map_of_eq_None_iff)
  qed
  have "locks (snd (releaseLocks rel (req_agentId request) ?acq ?lm1))
      = filter (\<lambda>(k, v). k \<notin> ?np ` set ?acq) (locks ?lm1)"
    using release_fold_locks[OF own, of "[]"] by (simp add: releaseLocks_locks)
  also have "\<dots> = filter (\<lambda>(k, v). k \<notin> ?np ` set ?acq) (locks lm)"
    unfolding l1 using grantAll_filter[of rel ?lm0 ?acq "?np ` set ?acq"] by simp
  also have "\<dots> = locks lm"
  proof -
    have "\<forall>x\<in>set (locks lm). fst x \<notin> ?np ` set ?acq"
      using fresh by (auto simp: image_iff) (metis fst_conv)
    then show ?thesis by (auto simp: filter_id_conv)
  qed
  finally show ?thesis by (simp add: acquireLocks_acquired)
qed

theorem acquire_release_roundtrip_witness:
  "locks (heldManager ''A2'' Write 5000) = [(''x.ts'', heldLock ''A2'' Write 5000)]
   \<and> \<not> 1000 > expiresAt (heldLock ''A2'' Write 5000)
   \<and> acquired (fst (acquireLocks relInside 1000
         (lockRequest [''x.ts'', ''/proj/y.ts''] Write None) (heldManager ''A2'' Write 5000)))
       = [''/proj/y.ts'']
   \<and> locks (snd (releaseLocks relInside ''A1''
         (acquired (fst (acquireLocks relInside 1000
            (lockRequest [''x.ts'', ''/proj/y.ts''] Write None) (heldManager ''A2'' Write 5000))))
         (snd (acquireLocks relInside 1000
            (lockRequest [''x.ts'', ''/proj/y.ts''] Write None) (heldManager ''A2'' Write 5000)))))
       = [(''x.ts'', heldLock ''A2'' Write 5000)]"
proof -
  let ?lm = "heldManager ''A2'' Write 5000"
  let ?req = "lockRequest [''x.ts'', ''/proj/y.ts''] Write None"
  have live: "\<forall>(k, l)\<in>set (locks ?lm). \<not> 1000 > expiresAt l"
    by (simp add: lock_eval)
  have free: "\<forall>p\<in>set (paths ?req). \<forall>e.
      map_of (locks ?lm) (normalizePath relInside (projectPath ?lm) p) = Some e \<longrightarrow>
      lock_agentId e \<noteq> req_agentId ?req
      \<and> \<not> isCompatibleLock (lock_lockType e) (req_lockType ?req)"
    by (simp add: lock_eval)
  from acquire_release_roundtrip[of ?lm 1000 ?req relInside, OF live free] show ?thesis
    by (simp add: lock_eval)
qed

subsection \<open>C10: replacement of a lock record on re-acquire\<close>

text \<open>
  C10: the lock table holds at most one record per normalized path (an invariant of
  \<open>acquireLocks\<close> on the association list that models the \<open>Map\<close>); every path that
  \<open>acquireLocks\<close> grants carries afterwards a fresh record owned by the requester with
  \<open>lockedAt = now\<close> and a new \<open>expiresAt\<close>; and a requested path that already carries a
  lock is granted whenever that lock is held by the requesting agent (with any type) or
  both the held and the requested type are \<open>read\<close>.  In the read/read case the fresh
  record belongs to the requester: ownership of the path's lock is transferred.
\<close>

theorem acquireLocks_replaces_record:
  assumes dist: "distinct (map fst (locks lm))"
      and run: "acquireLocks rel now request lm = (res, lm')"
  shows "distinct (map fst (locks lm'))
       \<and> (\<forall>p\<in>set (acquired res).
             map_of (locks lm') (normalizePath rel (projectPath lm) p) =
               Some \<lparr>path = normalizePath rel (projectPath lm) p,
                     lock_agentId = req_agentId request,
                     lock_taskId = req_taskId request,
                     lockedAt = now,
                     expiresAt = now + leaseLength request lm,
                     lock_lockType = req_lockType request\<rparr>)
       \<and> (\<forall>p\<in>set (paths request). \<forall>e.
             map_of (locks lm) (normalizePath rel (projectPath lm) p) = Some e
             \<and> (lock_agentId e = req_agentId request
                \<or> lock_lockType e = Read \<and> req_lockType request = Read)
             \<longrightarrow> p \<in> set (acquired res))"
proof -
  let ?np = "normalizePath rel (projectPath lm)"
  let ?lm0 = "snd (cleanExpiredLocks now lm)"
  let ?C = "conflictAt rel request ?lm0"
  let ?acq = "filter (\<lambda>p. \<not> ?C p) (paths request)"
  have acq: "acquired res = ?acq"
    using run by (auto simp: acquireLocks_eq Let_def)
  have lk: "locks lm' = grantAll rel now request ?lm0 ?acq (locks ?lm0)"
    using run by (auto simp: acquireLocks_eq Let_def saveLocks_def split: if_splits)
  have d: "distinct (map fst (locks lm'))"
    unfolding lk by (intro grantAll_distinct swept_distinct dist)
  have fresh: "map_of (locks lm') (?np p) = Some (newLock now request lm (?np p))"
    if "p \<in> set (acquired res)" for p
    using that unfolding acq lk by (simp add: grantAll_map_of image_iff) blast
  have granted: "p \<in> set (acquired res)"
    if p: "p \<in> set (paths request)"
      and e: "map_of (locks lm) (?np p) = Some e"
      and ok: "lock_agentId e = req_agentId request
               \<or> lock_lockType e = Read \<and> req_lockType request = Read"
    for p e
  proof -
    have "\<not> ?C p"
    proof
      assume "?C p"
      then obtain e' where e': "map_of (locks ?lm0) (?np p) = Some e'"
        "lock_agentId e' \<noteq> req_agentId request"
        "\<not> isCompatibleLock (lock_lockType e') (req_lockType request)"
        by (auto simp: conflictAt_def split: option.splits)
      from swept_lookup[OF dist e'(1)] e have "e' = e" by simp
      with e'(2,3) ok show False by (auto simp: isCompatibleLock_def)
    qed
    with p show ?thesis by (simp add: acq)
  qed
  show ?thesis
  proof (intro conjI ballI allI impI)
    show "distinct (map fst (locks lm'))" by (rule d)
  next
    fix p assume "p \<in> set (acquired res)"
    from fresh[OF this] show "map_of (locks lm') (?np p) =
               Some \<lparr>path = ?np p,
                     lock_agentId = req_agentId request,
                     lock_taskId = req_taskId request,
                     lockedAt = now,
                     expiresAt = now + leaseLength request lm,
                     lock_lockType = req_lockType request\<rparr>"
      by (simp add: newLock_def)
  next
    fix p e assume "p \<in> set (paths request)"
      and "map_of (locks lm) (?np p) = Some e
             \<and> (lock_agentId e = req_agentId request
                \<or> lock_lockType e = Read \<and> req_lockType request = Read)"
    then show "p \<in> set (acquired res)" using granted by blast
  qed
qed

theorem acquireLocks_replaces_record_witness:
  "distinct (map fst (locks (heldManager ''A2'' Read 5000)))
   \<and> map_of (locks (heldManager ''A2'' Read 5000)) ''x.ts'' = Some (heldLock ''A2'' Read 5000)
   \<and> lock_agentId (heldLock ''A2'' Read 5000) = ''A2''
   \<and> ''x.ts'' \<in> set (acquired (fst (acquireLocks relInside 1000 (lockRequest [''x.ts''] Read None)
                                       (heldManager ''A2'' Read 5000))))
   \<and> map_of (locks (snd (acquireLocks relInside 1000 (lockRequest [''x.ts''] Read None)
                          (heldManager ''A2'' Read 5000)))) ''x.ts''
       = Some \<lparr>path = ''x.ts'', lock_agentId = ''A1'', lock_taskId = ''t1'', lockedAt = 1000,
                expiresAt = 301000, lock_lockType = Read\<rparr>"
proof -
  let ?run = "acquireLocks relInside 1000 (lockRequest [''x.ts''] Read None)
                (heldManager ''A2'' Read 5000)"
  have dist: "distinct (map fst (locks (heldManager ''A2'' Read 5000)))"
    by (simp add: lock_eval)
  have run: "?run = (fst ?run, snd ?run)"
    by simp
  from acquireLocks_replaces_record[OF dist run] show ?thesis
    by (simp add: lock_eval)
qed

section \<open>Lemmas about the coordinator\<close>

lemma releaseTaskLocks_locks:
  "locks (snd (releaseTaskLocks taskId lm)) = filter (\<lambda>(p, lock). \<not> lock_taskId lock = taskId) (locks lm)"
  by (simp add: releaseTaskLocks_def Let_def saveLocks_def)

lemma releaseAllLocks_locks:
  "locks (snd (releaseAllLocks agentId lm)) = filter (\<lambda>(p, lock). \<not> lock_agentId lock = agentId) (locks lm)"
  by (simp add: releaseAllLocks_def Let_def saveLocks_def)

lemma map_of_unblock:
  "map_of (tasks (unblockDependentTasks c s)) k =
     map_option (\<lambda>task. case blockedBy task of None \<Rightarrow> task
                        | Some bs \<Rightarrow> task\<lparr>blockedBy := Some (remove1 c bs)\<rparr>) (map_of (tasks s) k)"
  by (simp add: unblockDependentTasks_def map_of_map)

lemma status_unblock:
  "map_option task_status (map_of (tasks (unblockDependentTasks c s)) k) =
     map_option task_status (map_of (tasks s) k)"
  by (cases "map_of (tasks s) k") (auto simp: map_of_unblock split: option.splits)

lemma assignCommit_tasks_other:
  "k \<noteq> taskId \<Longrightarrow> map_of (tasks (snd (assignCommit rel now taskId agentId task agent s))) k = map_of (tasks s) k"
  by (simp add: assignCommit_def Let_def update_conv)

lemma assignTask_tasks_other:
  "k \<noteq> taskId \<Longrightarrow> map_of (tasks (snd (assignTask rel now taskId agentId s))) k = map_of (tasks s) k"
  by (simp add: assignTask_def Let_def update_conv assignCommit_tasks_other split: option.splits)

lemma assignTask_not_pending:
  "map_of (tasks s) taskId = Some t \<Longrightarrow> task_status t \<noteq> Pending \<Longrightarrow>
   assignTask rel now taskId agentId s = (None, s)"
  by (simp add: assignTask_def split: option.splits)

lemma completeTask_status:
  assumes "map_of (tasks s) k = Some t"
  shows "map_option task_status (map_of (tasks (completeTask now taskId agentId res s)) k) =
         Some (if k = taskId \<and> assignedAgent t = Some agentId then Completed else task_status t)"
  using assms
  by (auto simp: completeTask_def Let_def status_unblock update_conv simp del: map_option_eq_Some
           split: option.splits)

lemma failTask_status_other:
  assumes "map_of (tasks s) k = Some t" "k \<noteq> taskId \<or> assignedAgent t \<noteq> Some agentId"
  shows "map_option task_status (map_of (tasks (failTask now taskId agentId err s)) k) = Some (task_status t)"
  using assms
  by (auto simp: failTask_def Let_def update_conv simp del: map_option_eq_Some split: option.splits)

lemma unassignTask_status_other:
  assumes "map_of (tasks s) k = Some t" "k \<noteq> taskId"
  shows "map_option task_status (map_of (tasks (unassignTask taskId s)) k) = Some (task_status t)"
  using assms
  by (auto simp: unassignTask_def Let_def update_conv simp del: map_option_eq_Some split: option.splits)

lemma failTask_task:
  assumes "map_of (tasks s) taskId = Some task" "assignedAgent task = Some agentId"
  shows "map_of (tasks (failTask now taskId agentId err s)) taskId =
         Some (if attempts task < maxAttempts task
               then task\<lparr>task_status := Pending, assignedAgent := None, assignedAt := None,
                          error := Some err\<rparr>
               else task\<lparr>task_status := Failed, completedAt := Some now, error := Some err\<rparr>)"
  using assms by (simp add: failTask_def Let_def update_conv)

lemma checkConflicts_snd:
  "snd (checkConflicts rel now agentId ps lm) = snd (cleanExpiredLocks now lm)"
  by (simp add: checkConflicts_def Let_def)

lemma cleanExpiredLocks_none:
  assumes "\<forall>(p, lock)\<in>set (locks lm). \<not> now > expiresAt lock"
  shows "snd (cleanExpiredLocks now lm) = lm"
proof -
  have "filter (\<lambda>(p, lock). \<not> now > expiresAt lock) (locks lm) = locks lm"
    using assms by (auto simp: filter_id_conv)
  then show ?thesis by (simp add: cleanExpiredLocks_def Let_def)
qed

lemma assignCommit_fst: "fst (assignCommit rel now taskId agentId task agent s) \<noteq> None"
  by (simp add: assignCommit_def Let_def)

lemma assignCommit_result:
  "fst (assignCommit rel now taskId agentId task agent s) = Some task' \<Longrightarrow>
   blockedBy task' = blockedBy task
   \<and> map_of (tasks (snd (assignCommit rel now taskId agentId task agent s))) taskId = Some task'"
  by (auto simp: assignCommit_def Let_def update_conv split: if_splits)

lemma releaseTaskLocks_idem:
  "snd (releaseTaskLocks taskId (snd (releaseTaskLocks taskId lm))) = snd (releaseTaskLocks taskId lm)"
proof -
  have "filter (\<lambda>(p, lock). lock_taskId lock = taskId)
          (filter (\<lambda>(p, lock). \<not> lock_taskId lock = taskId) (locks lm)) = []"
    by (auto simp: filter_empty_conv)
  moreover have "filter (\<lambda>(p, lock). \<not> lock_taskId lock = taskId)
          (filter (\<lambda>(p, lock). \<not> lock_taskId lock = taskId) (locks lm))
        = filter (\<lambda>(p, lock). \<not> lock_taskId lock = taskId) (locks lm)"
    by simp
  ultimately show ?thesis
    by (simp add: releaseTaskLocks_def[of taskId "snd (releaseTaskLocks taskId lm)"]
                  releaseTaskLocks_locks Let_def)
qed

lemma releaseStep_eq:
  "releaseStep rel agentId p (lm, released) =
     (if ownedAt agentId lm (normalizePath rel (projectPath lm) p)
      then (lm\<lparr>locks := AList.delete (normalizePath rel (projectPath lm) p) (locks lm)\<rparr>,
            released @ [p])
      else (lm, released))"
  by (simp add: releaseStep_def ownedAt_def Let_def split: option.splits)

lemma release_fold_noop:
  "\<forall>p\<in>set ps. \<not> ownedAt agentId lm (normalizePath rel (projectPath lm) p) \<Longrightarrow>
   fold (releaseStep rel agentId) ps (lm, released) = (lm, released)"
  by (induction ps) (simp_all add: releaseStep_eq)

lemma release_fold_post:
  "projectPath (fst (fold (releaseStep rel agentId) ps (lm, released))) = projectPath lm
   \<and> (\<forall>k. \<not> ownedAt agentId lm k \<longrightarrow>
            \<not> ownedAt agentId (fst (fold (releaseStep rel agentId) ps (lm, released))) k)
   \<and> (\<forall>p\<in>set ps. \<not> ownedAt agentId (fst (fold (releaseStep rel agentId) ps (lm, released)))
                        (normalizePath rel (projectPath lm) p))"
proof (induction ps arbitrary: lm released)
  case Nil
  show ?case by simp
next
  case (Cons p ps)
  let ?k = "normalizePath rel (projectPath lm) p"
  obtain lm1 r1 where step: "releaseStep rel agentId p (lm, released) = (lm1, r1)"
    by (cases "releaseStep rel agentId p (lm, released)")
  have pp: "projectPath lm1 = projectPath lm"
    using step by (auto simp: releaseStep_eq split: if_splits)
  have mono: "\<not> ownedAt agentId lm k \<Longrightarrow> \<not> ownedAt agentId lm1 k" for k
    using step by (auto simp: releaseStep_eq ownedAt_def delete_conv split: if_splits)
  have here: "\<not> ownedAt agentId lm1 ?k"
    using step by (auto simp: releaseStep_eq ownedAt_def delete_conv split: if_splits)
  from Cons.IH[of lm1 r1] pp mono here show ?case
    by (simp add: step)
qed

lemma releaseLocks_idem:
  "snd (releaseLocks rel agentId ps (snd (releaseLocks rel agentId ps lm)))
     = snd (releaseLocks rel agentId ps lm)"
proof -
  obtain lm1 r1 where f: "fold (releaseStep rel agentId) ps (lm, []) = (lm1, r1)"
    by (cases "fold (releaseStep rel agentId) ps (lm, [])")
  let ?lm2 = "if length r1 > 0 then saveLocks lm1 else lm1"
  have r: "snd (releaseLocks rel agentId ps lm) = ?lm2"
    by (simp add: releaseLocks_def f)
  from release_fold_post[of rel agentId ps lm "[]"] f
  have pp: "projectPath lm1 = projectPath lm"
    and post: "\<forall>p\<in>set ps. \<not> ownedAt agentId lm1 (normalizePath rel (projectPath lm) p)"
    by simp_all
  have "\<forall>p\<in>set ps. \<not> ownedAt agentId ?lm2 (normalizePath rel (projectPath ?lm2) p)"
    using post pp by (simp add: ownedAt_def saveLocks_def)
  from release_fold_noop[OF this, of "[]"]
  have "releaseLocks rel agentId ps ?lm2 = ([], ?lm2)"
    by (simp add: releaseLocks_def)
  then show ?thesis by (simp add: r)
qed

lemma unregisterAgent_idem:
  "unregisterAgent agentId (unregisterAgent agentId s) = unregisterAgent agentId s"
proof (cases "map_of (agents s) agentId")
  case None
  then show ?thesis by (simp add: unregisterAgent_def)
next
  case (Some agent)
  then have "map_of (agents (unregisterAgent agentId s)) agentId = None"
    by (simp add: unregisterAgent_def Let_def delete_conv)
  then show ?thesis
    by (simp add: unregisterAgent_def[of agentId "unregisterAgent agentId s"])
qed

lemma updateHeartbeat_idem:
  "updateHeartbeat now agentId status (updateHeartbeat now agentId status s)
     = updateHeartbeat now agentId status s"
proof (cases "map_of (agents s) agentId")
  case None
  then show ?thesis by (simp add: updateHeartbeat_def)
next
  case (Some agent)
  let ?agent2 = "case status of
                   None \<Rightarrow> agent\<lparr>lastHeartbeat := now\<rparr>
                 | Some st \<Rightarrow> if st \<noteq> agent_status agent
                              then agent\<lparr>lastHeartbeat := now, agent_status := st\<rparr>
                              else agent\<lparr>lastHeartbeat := now\<rparr>"
  have s1: "updateHeartbeat now agentId status s = s\<lparr>agents := AList.update agentId ?agent2 (agents s)\<rparr>"
    using Some by (simp add: updateHeartbeat_def Let_def split: option.splits)
  have look: "map_of (agents (s\<lparr>agents := AList.update agentId ?agent2 (agents s)\<rparr>)) agentId = Some ?agent2"
    by (simp add: update_conv)
  have fix1: "?agent2\<lparr>lastHeartbeat := now\<rparr> = ?agent2"
    by (simp split: option.splits)
  have fix2: "(case status of None \<Rightarrow> ?agent2
               | Some st \<Rightarrow> if st \<noteq> agent_status ?agent2 then ?agent2\<lparr>agent_status := st\<rparr> else ?agent2)
              = ?agent2"
    by (simp split: option.splits)
  have "updateHeartbeat now agentId status (s\<lparr>agents := AList.update agentId ?agent2 (agents s)\<rparr>)
      = s\<lparr>agents := AList.update agentId ?agent2 (agents s)\<rparr>"
    unfolding updateHeartbeat_def[of now agentId status "s\<lparr>agents := AList.update agentId ?agent2 (agents s)\<rparr>"]
    using look fix1 fix2 by (simp add: Let_def)
  then show ?thesis by (simp add: s1)
qed

lemma grantAll_triv:
  "\<forall>p\<in>set ps. map_of ls (normalizePath rel (projectPath lm) p)
                   = Some (newLock now request lm (normalizePath rel (projectPath lm) p)) \<Longrightarrow>
   grantAll rel now request lm ps ls = ls"
  unfolding grantAll_def
  by (induction ps) (simp_all add: update_triv)

lemma grantAll_set:
  "set (grantAll rel now request lm ps ls) \<subseteq>
     set ls \<union> (\<lambda>p. (normalizePath rel (projectPath lm) p,
                      newLock now request lm (normalizePath rel (projectPath lm) p))) ` set ps"
  unfolding grantAll_def
proof (induction ps arbitrary: ls)
  case Nil
  show ?case by simp
next
  case (Cons p ps)
  have "set (AList.update k v ls) \<subseteq> insert (k, v) (set ls)" for k and v :: FileLock
    by (induction ls) auto
  with Cons[of "AList.update (normalizePath rel (projectPath lm) p)
                  (newLock now request lm (normalizePath rel (projectPath lm) p)) ls"]
  show ?case by (simp only: fold_simps set_simps image_insert) blast
qed

lemma grantAll_same_fields:
  "projectPath lm = projectPath lm' \<Longrightarrow> defaultTimeout lm = defaultTimeout lm' \<Longrightarrow>
   grantAll rel now request lm = grantAll rel now request lm'"
proof -
  assume a: "projectPath lm = projectPath lm'" "defaultTimeout lm = defaultTimeout lm'"
  then have "newLock now request lm = newLock now request lm'"
    by (intro ext) (simp add: newLock_def leaseLength_def split: option.splits)
  with a show ?thesis
    by (intro ext) (simp add: grantAll_def)
qed

lemma leaseLength_swept [simp]:
  "leaseLength request (snd (cleanExpiredLocks now lm)) = leaseLength request lm"
  by (simp add: leaseLength_def split: option.splits)

lemma saveLocks_idem: "saveLocks (saveLocks lm) = saveLocks lm"
  by (simp add: saveLocks_def)

lemma conflictAt_lookup:
  "conflictAt rel request lm p =
     (case map_of (locks lm) (normalizePath rel (projectPath lm) p) of
        None \<Rightarrow> False
      | Some e \<Rightarrow> lock_agentId e \<noteq> req_agentId request
                  \<and> \<not> isCompatibleLock (lock_lockType e) (req_lockType request))"
  by (simp add: conflictAt_def)

lemma conflictAt_fresh:
  "map_of (locks lm) (normalizePath rel (projectPath lm) p) = Some (newLock now request lm0 k) \<Longrightarrow>
   \<not> conflictAt rel request lm p"
  by (simp add: conflictAt_def newLock_def)

lemma conflictAt_same_lookup:
  "projectPath lm = projectPath lm' \<Longrightarrow>
   map_of (locks lm) (normalizePath rel (projectPath lm') p)
     = map_of (locks lm') (normalizePath rel (projectPath lm') p) \<Longrightarrow>
   conflictAt rel request lm p = conflictAt rel request lm' p"
  by (simp add: conflictAt_def)

lemma acquireLocks_idem:
  assumes lease: "0 \<le> leaseLength request lm"
  shows "snd (acquireLocks rel now request (snd (acquireLocks rel now request lm)))
           = snd (acquireLocks rel now request lm)"
proof -
  let ?np = "normalizePath rel (projectPath lm)"
  define lm0 where "lm0 = snd (cleanExpiredLocks now lm)"
  define acq where "acq = filter (\<lambda>p. \<not> conflictAt rel request lm0 p) (paths request)"
  define ls where "ls = grantAll rel now request lm0 acq (locks lm0)"
  define lm1 where "lm1 = (if acq = [] then lm0\<lparr>locks := ls\<rparr> else saveLocks (lm0\<lparr>locks := ls\<rparr>))"
  have f0: "projectPath lm0 = projectPath lm" "defaultTimeout lm0 = defaultTimeout lm"
    by (simp_all add: lm0_def)
  have r1: "snd (acquireLocks rel now request lm) = lm1"
    by (simp add: acquireLocks_eq Let_def lm1_def ls_def acq_def lm0_def)
  have f1: "projectPath lm1 = projectPath lm" "defaultTimeout lm1 = defaultTimeout lm"
    "locks lm1 = ls"
    by (simp_all add: lm1_def saveLocks_def f0)
  have acq_ok: "\<not> conflictAt rel request lm0 q" if "q \<in> set acq" for q
    using that by (simp add: acq_def)
  have live: "\<forall>(p, lock)\<in>set (locks lm1). \<not> now > expiresAt lock"
  proof -
    have "\<not> now > expiresAt lock" if "(p, lock) \<in> set ls" for p lock
    proof -
      from that grantAll_set[of rel now request lm0 acq "locks lm0"]
      consider "(p, lock) \<in> set (locks lm0)"
        | "lock = newLock now request lm0 p"
        unfolding ls_def by auto
      then show ?thesis
      proof cases
        case 1
        then show ?thesis by (auto simp: lm0_def cleanExpiredLocks_locks)
      next
        case 2
        with lease show ?thesis by (simp add: newLock_def lm0_def)
      qed
    qed
    then show ?thesis unfolding f1 by auto
  qed
  have sw: "snd (cleanExpiredLocks now lm1) = lm1"
    by (rule cleanExpiredLocks_none[OF live])
  have lookup: "map_of ls k = (if k \<in> ?np ` set acq then Some (newLock now request lm0 k)
                               else map_of (locks lm0) k)" for k
    by (simp add: ls_def grantAll_map_of f0)
  have conf: "conflictAt rel request lm1 p = conflictAt rel request lm0 p" for p
  proof (cases "?np p \<in> ?np ` set acq")
    case True
    then obtain q where q: "q \<in> set acq" "?np p = ?np q" by auto
    have "conflictAt rel request lm0 p = conflictAt rel request lm0 q"
      by (rule conflictAt_same_key) (simp add: f0 q(2))
    with acq_ok[OF q(1)] have a: "\<not> conflictAt rel request lm0 p" by simp
    have "map_of (locks lm1) (normalizePath rel (projectPath lm1) p)
        = Some (newLock now request lm0 (?np p))"
      using True by (simp add: f1 lookup)
    then have "\<not> conflictAt rel request lm1 p" by (rule conflictAt_fresh)
    with a show ?thesis by simp
  next
    case False
    show ?thesis
      by (rule conflictAt_same_lookup) (simp_all add: f0 f1 lookup False)
  qed
  have acq2: "filter (\<lambda>p. \<not> conflictAt rel request lm1 p) (paths request) = acq"
    by (simp add: conf acq_def)
  have g: "grantAll rel now request lm1 = grantAll rel now request lm0"
    by (rule grantAll_same_fields) (simp_all add: f0 f1)
  have triv: "grantAll rel now request lm0 acq ls = ls"
  proof (rule grantAll_triv, rule ballI)
    fix p assume "p \<in> set acq"
    then have "?np p \<in> ?np ` set acq" by (rule imageI)
    then show "map_of ls (normalizePath rel (projectPath lm0) p)
        = Some (newLock now request lm0 (normalizePath rel (projectPath lm0) p))"
      by (simp add: lookup f0)
  qed
  have again: "lm1\<lparr>locks := grantAll rel now request lm1 acq (locks lm1)\<rparr> = lm1"
    unfolding g f1(3) triv by (simp add: lm1_def saveLocks_def)
  have "snd (acquireLocks rel now request lm1)
      = (if acq = [] then lm1 else saveLocks lm1)"
    unfolding acquireLocks_eq[of rel now request lm1] Let_def sw acq2 again by simp
  also have "\<dots> = lm1"
    by (simp add: lm1_def saveLocks_idem)
  finally show ?thesis unfolding r1 .
qed

lemma completeTask_noop:
  "(\<forall>task. map_of (tasks s) taskId = Some task \<longrightarrow> assignedAgent task \<noteq> Some agentId) \<Longrightarrow>
   completeTask now taskId agentId res s = s"
  by (simp add: completeTask_def split: option.splits)

lemma failTask_noop:
  "(\<forall>task. map_of (tasks s) taskId = Some task \<longrightarrow> assignedAgent task \<noteq> Some agentId) \<Longrightarrow>
   failTask now taskId agentId err s = s"
  by (simp add: failTask_def split: option.splits)

lemma completeTask_None:
  "map_of (tasks s) k = None \<Longrightarrow> map_of (tasks (completeTask now taskId agentId res s)) k = None"
  by (auto simp: completeTask_def Let_def map_of_unblock update_conv split: option.splits)

lemma failTask_None:
  "map_of (tasks s) k = None \<Longrightarrow> map_of (tasks (failTask now taskId agentId err s)) k = None"
  by (auto simp: failTask_def Let_def update_conv split: option.splits)

lemma completeTask_other_fields:
  "taskQueue (completeTask now taskId agentId res s) = taskQueue s"
  "lockManager (completeTask now taskId agentId res s) =
     (case map_of (tasks s) taskId of
        None \<Rightarrow> lockManager s
      | Some task \<Rightarrow> if assignedAgent task = Some agentId
                     then snd (releaseTaskLocks taskId (lockManager s)) else lockManager s)"
  by (simp_all add: completeTask_def Let_def unblockDependentTasks_def split: option.splits)

lemma completeTask_task:
  assumes "map_of (tasks s) taskId = Some task" "assignedAgent task = Some agentId"
  shows "\<exists>task'. map_of (tasks (completeTask now taskId agentId res s)) taskId = Some task'
           \<and> assignedAgent task' = Some agentId \<and> task_status task' = Completed"
  using assms
  by (auto simp: completeTask_def Let_def map_of_unblock update_conv split: option.splits)

lemma failTask_status:
  assumes "map_of (tasks s) k = Some t"
  shows "map_option task_status (map_of (tasks (failTask now taskId agentId err s)) k) =
         Some (if k = taskId \<and> assignedAgent t = Some agentId
               then (if attempts t < maxAttempts t then Pending else Failed)
               else task_status t)"
  using assms
  by (auto simp: failTask_def Let_def update_conv simp del: map_option_eq_Some split: option.splits)

lemma failTask_other_fields:
  "lockManager (failTask now taskId agentId err s) =
     (case map_of (tasks s) taskId of
        None \<Rightarrow> lockManager s
      | Some task \<Rightarrow> if assignedAgent task = Some agentId
                     then snd (releaseTaskLocks taskId (lockManager s)) else lockManager s)"
  "taskQueue (failTask now taskId agentId err s) =
     (case map_of (tasks s) taskId of
        None \<Rightarrow> taskQueue s
      | Some task \<Rightarrow> if assignedAgent task = Some agentId \<and> attempts task < maxAttempts task
                     then taskId # taskQueue s else taskQueue s)"
  by (simp_all add: failTask_def Let_def split: option.splits)

lemma completeTask_twice:
  "(\<forall>k. map_option task_status
           (map_of (tasks (completeTask now' taskId agentId res
                            (completeTask now taskId agentId res s))) k)
        = map_option task_status (map_of (tasks (completeTask now taskId agentId res s)) k))
   \<and> taskQueue (completeTask now' taskId agentId res (completeTask now taskId agentId res s))
       = taskQueue (completeTask now taskId agentId res s)
   \<and> lockManager (completeTask now' taskId agentId res (completeTask now taskId agentId res s))
       = lockManager (completeTask now taskId agentId res s)"
proof (cases "\<forall>task. map_of (tasks s) taskId = Some task \<longrightarrow> assignedAgent task \<noteq> Some agentId")
  case True
  then show ?thesis by (simp add: completeTask_noop)
next
  case False
  then obtain task where t: "map_of (tasks s) taskId = Some task" "assignedAgent task = Some agentId"
    by auto
  let ?s1 = "completeTask now taskId agentId res s"
  from completeTask_task[OF t, of now res]
  obtain task' where t': "map_of (tasks ?s1) taskId = Some task'"
    "assignedAgent task' = Some agentId" "task_status task' = Completed" by auto
  have st: "map_option task_status (map_of (tasks (completeTask now' taskId agentId res ?s1)) k)
        = map_option task_status (map_of (tasks ?s1) k)" for k
  proof (cases "map_of (tasks ?s1) k")
    case None
    then show ?thesis by (simp add: completeTask_None)
  next
    case (Some tk)
    from completeTask_status[OF Some, of now' taskId agentId res] Some t'
    show ?thesis by (auto simp del: map_option_eq_Some)
  qed
  have lm1: "lockManager ?s1 = snd (releaseTaskLocks taskId (lockManager s))"
    using t by (simp add: completeTask_other_fields)
  have lm2: "lockManager (completeTask now' taskId agentId res ?s1)
      = snd (releaseTaskLocks taskId (lockManager ?s1))"
    using t' by (simp add: completeTask_other_fields(2)[of now' taskId agentId res ?s1])
  show ?thesis
    using st by (simp add: completeTask_other_fields(1) lm2 lm1 releaseTaskLocks_idem)
qed

lemma failTask_twice:
  "(\<forall>k. map_option task_status
           (map_of (tasks (failTask now' taskId agentId err (failTask now taskId agentId err s))) k)
        = map_option task_status (map_of (tasks (failTask now taskId agentId err s)) k))
   \<and> taskQueue (failTask now' taskId agentId err (failTask now taskId agentId err s))
       = taskQueue (failTask now taskId agentId err s)
   \<and> lockManager (failTask now' taskId agentId err (failTask now taskId agentId err s))
       = lockManager (failTask now taskId agentId err s)
   \<and> ((\<forall>task. map_of (tasks s) taskId = Some task \<and> assignedAgent task = Some agentId
               \<longrightarrow> attempts task < maxAttempts task)
       \<longrightarrow> failTask now' taskId agentId err (failTask now taskId agentId err s)
             = failTask now taskId agentId err s)"
proof (cases "\<forall>task. map_of (tasks s) taskId = Some task \<longrightarrow> assignedAgent task \<noteq> Some agentId")
  case True
  then show ?thesis by (simp add: failTask_noop)
next
  case False
  then obtain task where t: "map_of (tasks s) taskId = Some task" "assignedAgent task = Some agentId"
    by auto
  let ?s1 = "failTask now taskId agentId err s"
  note t1 = failTask_task[OF t, of now err]
  show ?thesis
  proof (cases "attempts task < maxAttempts task")
    case True
    with t1 have "\<forall>task. map_of (tasks ?s1) taskId = Some task \<longrightarrow> assignedAgent task \<noteq> Some agentId"
      by simp
    then have "failTask now' taskId agentId err ?s1 = ?s1"
      by (rule failTask_noop)
    then show ?thesis by simp
  next
    case False
    let ?t' = "task\<lparr>task_status := Failed, completedAt := Some now, error := Some err\<rparr>"
    from t1 False have t': "map_of (tasks ?s1) taskId = Some ?t'" by simp
    have st: "map_option task_status (map_of (tasks (failTask now' taskId agentId err ?s1)) k)
        = map_option task_status (map_of (tasks ?s1) k)" for k
    proof (cases "map_of (tasks ?s1) k")
      case None
      then show ?thesis by (simp add: failTask_None)
    next
      case (Some tk)
      from failTask_status[OF Some, of now' taskId agentId err] Some t' False
      show ?thesis by (auto simp del: map_option_eq_Some)
    qed
    have lm1: "lockManager ?s1 = snd (releaseTaskLocks taskId (lockManager s))"
      using t by (simp add: failTask_other_fields)
    have lm2: "lockManager (failTask now' taskId agentId err ?s1)
        = snd (releaseTaskLocks taskId (lockManager ?s1))"
      using t' t(2) by (simp add: failTask_other_fields(1)[of now' taskId agentId err ?s1])
    have q2: "taskQueue (failTask now' taskId agentId err ?s1) = taskQueue ?s1"
      using t' False by (simp add: failTask_other_fields(2)[of now' taskId agentId err ?s1])
    from t False have nr: "\<not> (\<forall>task. map_of (tasks s) taskId = Some task \<and> assignedAgent task = Some agentId
               \<longrightarrow> attempts task < maxAttempts task)" by auto
    have lm: "lockManager (failTask now' taskId agentId err ?s1) = lockManager ?s1"
      by (simp add: lm2 lm1 releaseTaskLocks_idem)
    show ?thesis
      using st q2 nr lm by blast
  qed
qed

section \<open>Claims about the coordinator\<close>

lemmas server_eval =
  assignedRun_def completedRun_def twoTaskRun_def reassign_def overAssignedRun_def
  lockMessage_def conflictRun_def ghostRun_def dupRun_def completeMessage_def failMessage_def
  createInitialState_def defaultConfig_def noInfo_def taskOptions_def okResult_def
  registerAgent_def createTask_def assignTask_def assignCommit_def completeTask_def failTask_def
  unassignTask_def unregisterAgent_def updateHeartbeat_def startTask_def unblockDependentTasks_def
  releaseAgent_def handleAgentMessage_def heartbeatStep_def checkAgentHeartbeats_def
  dependencyUnmet_def objectPrototypeNames_def orElse_def releaseTaskLocks_def
  releaseAllLocks_def inheritedRun_def

subsection \<open>C1: terminal task statuses\<close>

text \<open>
  C1, as stated, fails: \<open>completeTask\<close>, \<open>failTask\<close> and \<open>unassignTask\<close> never look at the
  status of the task.  After \<open>A1\<close> has completed \<open>t1\<close>, \<open>unassignTask(t1)\<close> returns the
  completed task to \<open>pending\<close>, and so does \<open>failTask(t1, A1, ...)\<close>, because the completed
  task keeps its \<open>assignedAgent\<close>.
\<close>

theorem terminal_status_counterexample:
  "map_option task_status (map_of (tasks completedRun) ''t1'') = Some Completed
   \<and> map_option task_status (map_of (tasks (unassignTask ''t1'' completedRun)) ''t1'') = Some Pending
   \<and> map_option task_status
         (map_of (tasks (failTask 2000 ''t1'' ''A1'' ''late'' completedRun)) ''t1'') = Some Pending"
  by (simp add: server_eval lock_eval)

text \<open>
  C1 (amended): for every task \<open>k\<close> whose status is completed, failed or cancelled,
  \<open>assignTask\<close> (with any arguments) leaves its status unchanged; \<open>completeTask(taskId,
  agentId)\<close> leaves it unchanged unless \<open>k\<close> is \<open>taskId\<close> and the calling agent equals the
  task's \<open>assignedAgent\<close>, in which case the status is completed afterwards, whatever it
  was (so a completed task stays completed); \<open>failTask(taskId, agentId)\<close> leaves it
  unchanged when \<open>k\<close> is another task or the calling agent is not the task's
  \<open>assignedAgent\<close>; and \<open>unassignTask(taskId)\<close> leaves it unchanged when \<open>k\<close> is another
  task.
\<close>

theorem terminal_status_guards:
  assumes t: "map_of (tasks s) k = Some t"
      and terminal: "task_status t = Completed \<or> task_status t = Failed \<or> task_status t = Cancelled"
  shows "map_option task_status (map_of (tasks (snd (assignTask rel now taskId agentId s))) k)
           = Some (task_status t)
       \<and> map_option task_status (map_of (tasks (completeTask now taskId agentId res s)) k)
           = Some (if k = taskId \<and> assignedAgent t = Some agentId then Completed else task_status t)
       \<and> (k \<noteq> taskId \<or> assignedAgent t \<noteq> Some agentId \<longrightarrow>
            map_option task_status (map_of (tasks (failTask now taskId agentId err s)) k)
              = Some (task_status t))
       \<and> (k \<noteq> taskId \<longrightarrow>
            map_option task_status (map_of (tasks (unassignTask taskId s)) k) = Some (task_status t))"
proof (intro conjI impI)
  show "map_option task_status (map_of (tasks (snd (assignTask rel now taskId agentId s))) k)
           = Some (task_status t)"
  proof (cases "k = taskId")
    case True
    with t terminal have "assignTask rel now taskId agentId s = (None, s)"
      by (intro assignTask_not_pending[of s taskId t]) auto
    with t True show ?thesis by simp
  next
    case False
    with t show ?thesis by (simp add: assignTask_tasks_other)
  qed
next
  show "map_option task_status (map_of (tasks (completeTask now taskId agentId res s)) k)
           = Some (if k = taskId \<and> assignedAgent t = Some agentId then Completed else task_status t)"
    by (rule completeTask_status[OF t])
next
  assume "k \<noteq> taskId \<or> assignedAgent t \<noteq> Some agentId"
  then show "map_option task_status (map_of (tasks (failTask now taskId agentId err s)) k)
              = Some (task_status t)"
    by (rule failTask_status_other[OF t])
next
  assume "k \<noteq> taskId"
  then show "map_option task_status (map_of (tasks (unassignTask taskId s)) k) = Some (task_status t)"
    by (rule unassignTask_status_other[OF t])
qed

theorem terminal_status_guards_witness:
  "map_option task_status (map_of (tasks twoTaskRun) ''t1'') = Some Completed
   \<and> map_option assignedAgent (map_of (tasks twoTaskRun) ''t1'') = Some (Some ''A1'')
   \<and> fst (assignTask relInside 3000 ''t2'' ''A1'' twoTaskRun) \<noteq> None
   \<and> map_option task_status
         (map_of (tasks (snd (assignTask relInside 3000 ''t2'' ''A1'' twoTaskRun))) ''t1'')
       = Some Completed
   \<and> map_option task_status
         (map_of (tasks (snd (assignTask relInside 3000 ''t1'' ''A1'' twoTaskRun))) ''t1'')
       = Some Completed
   \<and> map_option task_status
         (map_of (tasks (completeTask 3000 ''t1'' ''A1'' okResult twoTaskRun)) ''t1'')
       = Some Completed
   \<and> map_option task_status
         (map_of (tasks (failTask 3000 ''t1'' ''A2'' ''late'' twoTaskRun)) ''t1'')
       = Some Completed
   \<and> map_option task_status (map_of (tasks (unassignTask ''t2'' twoTaskRun)) ''t1'')
       = Some Completed"
proof -
  obtain t where t: "map_of (tasks twoTaskRun) ''t1'' = Some t"
      and st: "task_status t = Completed" and ag: "assignedAgent t = Some ''A1''"
    by (simp add: server_eval lock_eval)
  have terminal: "task_status t = Completed \<or> task_status t = Failed \<or> task_status t = Cancelled"
    using st by simp
  have assigned: "fst (assignTask relInside 3000 ''t2'' ''A1'' twoTaskRun) \<noteq> None"
    by (simp add: server_eval lock_eval)
  from terminal_status_guards[OF t terminal, of relInside 3000 "''t2''" "''A1''" okResult "''late''"]
       terminal_status_guards[OF t terminal, of relInside 3000 "''t1''" "''A1''" okResult "''late''"]
       terminal_status_guards[OF t terminal, of relInside 3000 "''t1''" "''A2''" okResult "''late''"]
       t st ag assigned
  show ?thesis by simp
qed

subsection \<open>C2: the heartbeat watchdog\<close>

text \<open>
  C2: after a heartbeat check in which an agent's silence exceeds \<open>heartbeatTimeout\<close>,
  the agent is offline, its current task is pending, unassigned and at the front of the
  queue, and its locks are released.  On the code the agent does not stay offline:
  \<open>checkAgentHeartbeats\<close> sets \<open>agent.status = 'offline'\<close> and then calls \<open>unassignTask\<close>,
  which sets the status of the agent of the task back to \<open>idle\<close>.  With \<open>A1\<close> working on
  \<open>t1\<close> and silent for 40000 ms (timeout 30000), the check leaves \<open>A1\<close> idle; the task
  and the locks are as the claim says.
\<close>

theorem heartbeat_timeout_leaves_agent_idle:
  "map_option lastHeartbeat (map_of (agents assignedRun) ''A1'') = Some 0
   \<and> map_option currentTask (map_of (agents assignedRun) ''A1'') = Some (Some ''t1'')
   \<and> heartbeatTimeout (config assignedRun) = 30000
   \<and> map_option agent_status (map_of (agents (checkAgentHeartbeats 40000 assignedRun)) ''A1'')
       = Some Idle
   \<and> map_option task_status (map_of (tasks (checkAgentHeartbeats 40000 assignedRun)) ''t1'')
       = Some Pending
   \<and> map_option assignedAgent (map_of (tasks (checkAgentHeartbeats 40000 assignedRun)) ''t1'')
       = Some None
   \<and> taskQueue (checkAgentHeartbeats 40000 assignedRun) = [''t1'']
   \<and> locks (lockManager (checkAgentHeartbeats 40000 assignedRun)) = []"
  by (simp add: server_eval lock_eval)

subsection \<open>C5: retry semantics of \<open>failTask\<close>\<close>

text \<open>
  C5, as stated, fails in its last part.  \<open>assignTask\<close> increments \<open>attempts\<close> without
  comparing it with \<open>maxAttempts\<close>, so a task that was unassigned and assigned again
  reaches \<open>attempts = 4\<close> with \<open>maxAttempts = 3\<close> and then fails terminally with
  \<open>attempts \<noteq> maxAttempts\<close>; and \<open>unassignTask\<close> returns the failed task to \<open>pending\<close>.
\<close>

theorem failTask_attempts_counterexample:
  "map_option (\<lambda>t. (task_status t, attempts t, maxAttempts t, error t))
       (map_of (tasks (failTask 5000 ''t1'' ''A1'' ''boom'' overAssignedRun)) ''t1'')
     = Some (Failed, 4, 3, Some ''boom'')
   \<and> map_option task_status
       (map_of (tasks (unassignTask ''t1'' (failTask 5000 ''t1'' ''A1'' ''boom'' overAssignedRun)))
          ''t1'')
     = Some Pending"
  by (simp add: server_eval lock_eval)

text \<open>
  C5 (amended): for every call \<open>failTask(taskId, agentId, error)\<close> on an existing task
  with \<open>assignedAgent == agentId\<close>: if \<open>attempts < maxAttempts\<close> then afterwards the task
  is pending with \<open>assignedAgent\<close> null and the error recorded, and its id is at the front
  of \<open>taskQueue\<close>; otherwise (\<open>attempts \<ge> maxAttempts\<close>) the task is failed with the
  error string preserved, the queue is unchanged, and a later \<open>failTask\<close> or \<open>assignTask\<close>
  (with any arguments) leaves it failed.  In both cases no lock of the task remains.
\<close>

theorem failTask_retry:
  assumes t: "map_of (tasks s) taskId = Some task"
      and a: "assignedAgent task = Some agentId"
  shows "(if attempts task < maxAttempts task
          then map_of (tasks (failTask now taskId agentId err s)) taskId
                 = Some (task\<lparr>task_status := Pending, assignedAgent := None, assignedAt := None,
                               error := Some err\<rparr>)
               \<and> taskQueue (failTask now taskId agentId err s) = taskId # taskQueue s
          else map_of (tasks (failTask now taskId agentId err s)) taskId
                 = Some (task\<lparr>task_status := Failed, completedAt := Some now, error := Some err\<rparr>)
               \<and> taskQueue (failTask now taskId agentId err s) = taskQueue s
               \<and> maxAttempts task \<le> attempts task
               \<and> map_option task_status
                    (map_of (tasks (failTask now' taskId' agentId' err'
                                      (failTask now taskId agentId err s))) taskId) = Some Failed
               \<and> map_option task_status
                    (map_of (tasks (snd (assignTask rel now' taskId' agentId'
                                      (failTask now taskId agentId err s)))) taskId) = Some Failed)
       \<and> (\<forall>(p, lock)\<in>set (locks (lockManager (failTask now taskId agentId err s))).
             lock_taskId lock \<noteq> taskId)"
proof -
  let ?s' = "failTask now taskId agentId err s"
  have lk: "locks (lockManager ?s') = filter (\<lambda>(p, lock). \<not> lock_taskId lock = taskId) (locks (lockManager s))"
    using t a by (simp add: failTask_def Let_def releaseTaskLocks_locks)
  have locks_free: "\<forall>(p, lock)\<in>set (locks (lockManager ?s')). lock_taskId lock \<noteq> taskId"
    unfolding lk by auto
  show ?thesis
  proof (cases "attempts task < maxAttempts task")
    case True
    with t a locks_free show ?thesis
      by (simp add: failTask_def Let_def update_conv)
  next
    case False
    let ?t' = "task\<lparr>task_status := Failed, completedAt := Some now, error := Some err\<rparr>"
    have t': "map_of (tasks ?s') taskId = Some ?t'"
      using t a False by (simp add: failTask_def Let_def update_conv)
    have q: "taskQueue ?s' = taskQueue s"
      using t a False by (simp add: failTask_def Let_def)
    have again: "map_option task_status (map_of (tasks (failTask now' taskId' agentId' err' ?s')) taskId) = Some Failed"
    proof (cases "taskId' = taskId \<and> assignedAgent ?t' = Some agentId'")
      case True
      then have eq: "taskId' = taskId" and ag: "assignedAgent ?t' = Some agentId'" by simp_all
      from failTask_task[OF t' ag, of now' err'] False show ?thesis
        unfolding eq by simp
    next
      case False
      then have "taskId \<noteq> taskId' \<or> assignedAgent ?t' \<noteq> Some agentId'" by auto
      from failTask_status_other[OF t' this] show ?thesis by simp
    qed
    have assign: "map_option task_status (map_of (tasks (snd (assignTask rel now' taskId' agentId' ?s'))) taskId) = Some Failed"
    proof (cases "taskId' = taskId")
      case True
      have "assignTask rel now' taskId agentId' ?s' = (None, ?s')"
        by (rule assignTask_not_pending[OF t']) simp
      with True t' show ?thesis by simp
    next
      case False
      then have "taskId \<noteq> taskId'" by simp
      then show ?thesis using t' by (simp add: assignTask_tasks_other)
    qed
    from False t' q again assign locks_free show ?thesis by simp
  qed
qed

theorem failTask_retry_witness:
  "map_option assignedAgent (map_of (tasks assignedRun) ''t1'') = Some (Some ''A1'')
   \<and> map_option (\<lambda>t. (attempts t, maxAttempts t)) (map_of (tasks assignedRun) ''t1'') = Some (1, 3)
   \<and> map_option (\<lambda>t. (task_status t, assignedAgent t, error t))
         (map_of (tasks (failTask 5000 ''t1'' ''A1'' ''boom'' assignedRun)) ''t1'')
       = Some (Pending, None, Some ''boom'')
   \<and> taskQueue (failTask 5000 ''t1'' ''A1'' ''boom'' assignedRun) = [''t1'']
   \<and> locks (lockManager assignedRun) \<noteq> []
   \<and> locks (lockManager (failTask 5000 ''t1'' ''A1'' ''boom'' assignedRun)) = []
   \<and> map_option (\<lambda>t. (attempts t, maxAttempts t)) (map_of (tasks overAssignedRun) ''t1'') = Some (4, 3)
   \<and> map_option task_status
         (map_of (tasks (failTask 6000 ''t1'' ''A1'' ''again''
                           (failTask 5000 ''t1'' ''A1'' ''boom'' overAssignedRun))) ''t1'')
       = Some Failed
   \<and> map_option task_status
         (map_of (tasks (snd (assignTask relInside 6000 ''t1'' ''A1''
                           (failTask 5000 ''t1'' ''A1'' ''boom'' overAssignedRun)))) ''t1'')
       = Some Failed"
proof -
  obtain t where t: "map_of (tasks assignedRun) ''t1'' = Some t"
      and a: "assignedAgent t = Some ''A1''" and n: "attempts t = 1" "maxAttempts t = 3"
    by (simp add: server_eval lock_eval)
  obtain u where u: "map_of (tasks overAssignedRun) ''t1'' = Some u"
      and b: "assignedAgent u = Some ''A1''" and m: "attempts u = 4" "maxAttempts u = 3"
    by (simp add: server_eval lock_eval)
  have held: "locks (lockManager assignedRun) \<noteq> []"
    by (simp add: server_eval lock_eval)
  have freed: "locks (lockManager (failTask 5000 ''t1'' ''A1'' ''boom'' assignedRun)) = []"
    by (simp add: server_eval lock_eval)
  have q: "taskQueue assignedRun = []"
    by (simp add: server_eval lock_eval)
  from failTask_retry[OF t a, of 5000 "''boom''"]
       failTask_retry[OF u b, of 5000 "''boom''" 6000 "''t1''" "''A1''" "''again''" relInside]
       t a n u b m held freed q
  show ?thesis by (simp del: map_option_eq_Some)
qed

subsection \<open>C9: a refused \<open>assignTask\<close>\<close>

text \<open>
  C9, as stated, fails on the lock table: the conflict check of \<open>assignTask\<close> starts with
  the sweep of expired locks.  At time 400000 the assignment of \<open>t2\<close> to \<open>A2\<close> is refused
  for the conflict on \<open>x.ts\<close>, and the expired lock of \<open>A1\<close> on \<open>y.ts\<close> has left the table.
\<close>

theorem assignTask_refusal_counterexample:
  "fst (assignTask relInside 400000 ''t2'' ''A2'' conflictRun) = None
   \<and> map fst (locks (lockManager conflictRun)) = [''y.ts'', ''x.ts'']
   \<and> map fst (locks (lockManager (snd (assignTask relInside 400000 ''t2'' ''A2'' conflictRun))))
       = [''x.ts'']"
  by (simp add: server_eval lock_eval)

text \<open>
  C9 (amended): whenever \<open>assignTask(taskId, agentId)\<close> returns null, the configuration,
  every agent, the \<open>taskQueue\<close> and the completed history are exactly as before; the
  tasks are as before except that the \<open>blockedBy\<close> list of \<open>taskId\<close> may have been set to
  the empty list; the lock table is as before except that the locks with
  \<open>now > expiresAt\<close> may have been evicted.  If no lock is expired and the task has an
  empty or no \<open>blockedBy\<close> list, the whole state is exactly as before.
\<close>

theorem assignTask_refusal:
  assumes none: "fst (assignTask rel now taskId agentId s) = None"
  shows "config (snd (assignTask rel now taskId agentId s)) = config s
       \<and> agents (snd (assignTask rel now taskId agentId s)) = agents s
       \<and> taskQueue (snd (assignTask rel now taskId agentId s)) = taskQueue s
       \<and> completedTasks (snd (assignTask rel now taskId agentId s)) = completedTasks s
       \<and> (tasks (snd (assignTask rel now taskId agentId s)) = tasks s
          \<or> (\<exists>task. map_of (tasks s) taskId = Some task
                \<and> tasks (snd (assignTask rel now taskId agentId s))
                    = AList.update taskId (task\<lparr>blockedBy := Some []\<rparr>) (tasks s)))
       \<and> (locks (lockManager (snd (assignTask rel now taskId agentId s))) = locks (lockManager s)
          \<or> locks (lockManager (snd (assignTask rel now taskId agentId s)))
              = filter (\<lambda>(p, lock). \<not> now > expiresAt lock) (locks (lockManager s)))
       \<and> ((\<forall>(p, lock)\<in>set (locks (lockManager s)). \<not> now > expiresAt lock)
           \<and> (\<forall>task bs. map_of (tasks s) taskId = Some task \<and> blockedBy task = Some bs \<longrightarrow> bs = [])
           \<longrightarrow> snd (assignTask rel now taskId agentId s) = s)"
proof (cases "map_of (tasks s) taskId")
  case None
  then show ?thesis by (simp add: assignTask_def)
next
  case (Some task)
  note t = Some
  show ?thesis
  proof (cases "map_of (agents s) agentId")
    case None
    with t show ?thesis by (simp add: assignTask_def)
  next
    case (Some agent)
    note a = Some
    let ?early = "task_status task \<noteq> Pending \<or> agent_status agent \<noteq> Idle
        \<or> (case blockedBy task of None \<Rightarrow> False
            | Some bs \<Rightarrow> length bs > 0 \<and> length (filter (dependencyUnmet (tasks s)) bs) > 0)"
    show ?thesis
    proof (cases ?early)
      case True
      then have "assignTask rel now taskId agentId s = (None, s)"
        using t a by (auto simp: assignTask_def)
      then show ?thesis by simp
    next
      case False
      let ?task1 = "case blockedBy task of None \<Rightarrow> task
                    | Some bs \<Rightarrow> if length bs > 0 then task\<lparr>blockedBy := Some []\<rparr> else task"
      let ?s1 = "s\<lparr>tasks := AList.update taskId ?task1 (tasks s)\<rparr>"
      have tf: "targetFiles ?task1 = targetFiles task"
        by (simp split: option.splits)
      have t1: "?task1 = task \<or> ?task1 = task\<lparr>blockedBy := Some []\<rparr>"
        by (simp split: option.splits)
      have t1': "?task1 = task" if "\<forall>bs. blockedBy task = Some bs \<longrightarrow> bs = []"
        using that by (simp split: option.splits)
      show ?thesis
      proof (cases "targetFiles task")
        case None
        with False t a tf have "assignTask rel now taskId agentId s
            = assignCommit rel now taskId agentId ?task1 agent ?s1"
          by (simp add: assignTask_def Let_def)
        with none assignCommit_fst show ?thesis by metis
      next
        case (Some fs)
        let ?checked = "checkConflicts rel now agentId fs (lockManager ?s1)"
        let ?s2 = "?s1\<lparr>lockManager := snd ?checked\<rparr>"
        have run: "assignTask rel now taskId agentId s
            = (if length (fst ?checked) > 0 then (None, ?s2)
               else assignCommit rel now taskId agentId ?task1 agent ?s2)"
          using False t a tf Some by (simp add: assignTask_def Let_def)
        have conf: "length (fst ?checked) > 0"
        proof (rule ccontr)
          assume "\<not> length (fst ?checked) > 0"
          with run have "assignTask rel now taskId agentId s
              = assignCommit rel now taskId agentId ?task1 agent ?s2" by simp
          with none assignCommit_fst show False by metis
        qed
        with run have res: "snd (assignTask rel now taskId agentId s) = ?s2" by simp
        have lk: "locks (lockManager ?s2)
            = filter (\<lambda>(p, lock). \<not> now > expiresAt lock) (locks (lockManager s))"
          by (simp add: checkConflicts_snd cleanExpiredLocks_locks)
        have tk: "tasks ?s2 = tasks s
            \<or> (\<exists>task. map_of (tasks s) taskId = Some task
                  \<and> tasks ?s2 = AList.update taskId (task\<lparr>blockedBy := Some []\<rparr>) (tasks s))"
          using t1
        proof
          assume "?task1 = task"
          then have "tasks ?s2 = tasks s" using t by (simp add: update_triv)
          then show ?thesis ..
        next
          assume "?task1 = task\<lparr>blockedBy := Some []\<rparr>"
          then have "tasks ?s2 = AList.update taskId (task\<lparr>blockedBy := Some []\<rparr>) (tasks s)" by simp
          with t show ?thesis by blast
        qed
        have same: "?s2 = s"
          if live: "\<forall>(p, lock)\<in>set (locks (lockManager s)). \<not> now > expiresAt lock"
            and nb: "\<forall>task bs. map_of (tasks s) taskId = Some task \<and> blockedBy task = Some bs \<longrightarrow> bs = []"
        proof -
          from nb t have "\<forall>bs. blockedBy task = Some bs \<longrightarrow> bs = []" by blast
          then have "?task1 = task" by (rule t1')
          then have a1: "AList.update taskId ?task1 (tasks s) = tasks s"
            using t by (simp add: update_triv)
          have a2: "snd (checkConflicts rel now agentId fs (lockManager s)) = lockManager s"
            using cleanExpiredLocks_none[OF live] by (simp add: checkConflicts_snd)
          show ?thesis by (simp add: a1 a2)
        qed
        have fields: "config ?s2 = config s" "agents ?s2 = agents s"
          "taskQueue ?s2 = taskQueue s" "completedTasks ?s2 = completedTasks s"
          by simp_all
        show ?thesis
          unfolding res
        proof (intro conjI impI)
          show "locks (lockManager ?s2) = locks (lockManager s)
              \<or> locks (lockManager ?s2)
                  = filter (\<lambda>(p, lock). \<not> now > expiresAt lock) (locks (lockManager s))"
            using lk by (rule disjI2)
          show "?s2 = s"
            if "(\<forall>(p, lock)\<in>set (locks (lockManager s)). \<not> now > expiresAt lock)
              \<and> (\<forall>task bs. map_of (tasks s) taskId = Some task \<and> blockedBy task = Some bs \<longrightarrow> bs = [])"
            using that same by blast
        qed (rule fields tk)+
      qed
    qed
  qed
qed

theorem assignTask_refusal_witness:
  "fst (assignTask relInside 250000 ''t2'' ''A2'' conflictRun) = None
   \<and> agents (snd (assignTask relInside 250000 ''t2'' ''A2'' conflictRun)) = agents conflictRun
   \<and> taskQueue (snd (assignTask relInside 250000 ''t2'' ''A2'' conflictRun)) = [''t2'']
   \<and> map_option blockedBy (map_of (tasks conflictRun) ''t2'') = Some None
   \<and> map (\<lambda>(p, lock). expiresAt lock) (locks (lockManager conflictRun)) = [300000, 500000]
   \<and> snd (assignTask relInside 250000 ''t2'' ''A2'' conflictRun) = conflictRun"
proof -
  have none: "fst (assignTask relInside 250000 ''t2'' ''A2'' conflictRun) = None"
    by (simp add: server_eval lock_eval)
  have live: "\<forall>(p, lock)\<in>set (locks (lockManager conflictRun)). \<not> 250000 > expiresAt lock"
    by (simp add: server_eval lock_eval)
  have nb: "\<forall>task bs. map_of (tasks conflictRun) ''t2'' = Some task \<and> blockedBy task = Some bs
              \<longrightarrow> bs = []"
    by (simp add: server_eval lock_eval)
  have q: "taskQueue conflictRun = [''t2'']"
    by (simp add: server_eval lock_eval)
  have b: "map_option blockedBy (map_of (tasks conflictRun) ''t2'') = Some None"
    by (simp add: server_eval lock_eval)
  have e: "map (\<lambda>(p, lock). expiresAt lock) (locks (lockManager conflictRun)) = [300000, 500000]"
    by (simp add: server_eval lock_eval)
  from assignTask_refusal[OF none] live nb have "snd (assignTask relInside 250000 ''t2'' ''A2'' conflictRun) = conflictRun"
    by blast
  with none q b e show ?thesis by simp
qed

subsection \<open>C4: dependencies of completed tasks\<close>

text \<open>
  C4, as stated, fails: an id in \<open>dependsOn\<close> for which \<open>state.tasks[id]\<close> is undefined
  never blocks (\<open>dep && dep.status !== 'completed'\<close>), and \<open>completeTask\<close> does not look
  at dependencies.  Task \<open>t2\<close> with \<open>dependsOn = ['ghost']\<close> is created, assigned and
  completed by the public operations, and \<open>ghost\<close> is no task.
\<close>

theorem dependency_counterexample:
  "map_option task_status (map_of (tasks ghostRun) ''t2'') = Some Completed
   \<and> map_option dependsOn (map_of (tasks ghostRun) ''t2'') = Some (Some [''ghost''])
   \<and> map_of (tasks ghostRun) ''ghost'' = None"
  by (simp add: server_eval lock_eval)

text \<open>
  C4 (amended): dependencies gate the assignment of a task.  \<open>createTask\<close> records as
  \<open>blockedBy\<close> exactly the ids of \<open>dependsOn\<close> that refer to an existing task that is not
  completed or, referring to no task, name a property that \<open>state.tasks\<close> inherits from
  \<open>Object.prototype\<close> (\<open>constructor\<close>, \<open>toString\<close>, \<open>__proto__\<close>, ...); there is no
  \<open>blockedBy\<close> when there is no such id.  \<open>assignTask\<close> succeeds only if every id in the
  task's \<open>blockedBy\<close> refers to a completed task or to no task and no inherited property;
  and the task that a successful \<open>assignTask\<close> returns and stores has an empty or no
  \<open>blockedBy\<close> list.
\<close>

theorem dependency_gating:
  "blockedBy (fst (createTask now taskId options s)) =
     (case opt_dependsOn options of
        None \<Rightarrow> None
      | Some deps \<Rightarrow>
          if filter (\<lambda>d. case map_of (tasks s) d of
                            None \<Rightarrow> d \<in> set objectPrototypeNames
                          | Some dep \<Rightarrow> task_status dep \<noteq> Completed) deps = []
          then None
          else Some (filter (\<lambda>d. case map_of (tasks s) d of
                                    None \<Rightarrow> d \<in> set objectPrototypeNames
                                  | Some dep \<Rightarrow> task_status dep \<noteq> Completed) deps))
   \<and> (\<forall>task bs. fst (assignTask rel now taskId agentId s) \<noteq> None
          \<and> map_of (tasks s) taskId = Some task \<and> blockedBy task = Some bs
        \<longrightarrow> (\<forall>d\<in>set bs. case map_of (tasks s) d of
                            None \<Rightarrow> d \<notin> set objectPrototypeNames
                          | Some dep \<Rightarrow> task_status dep = Completed))
   \<and> (\<forall>task'. fst (assignTask rel now taskId agentId s) = Some task'
        \<longrightarrow> (blockedBy task' = None \<or> blockedBy task' = Some [])
            \<and> map_of (tasks (snd (assignTask rel now taskId agentId s))) taskId = Some task')"
proof (intro conjI allI impI)
  have unmet: "dependencyUnmet (tasks s) = (\<lambda>d. case map_of (tasks s) d of
                            None \<Rightarrow> d \<in> set objectPrototypeNames
                          | Some dep \<Rightarrow> task_status dep \<noteq> Completed)"
    by (rule ext) (simp add: dependencyUnmet_def)
  show "blockedBy (fst (createTask now taskId options s)) =
     (case opt_dependsOn options of
        None \<Rightarrow> None
      | Some deps \<Rightarrow>
          if filter (\<lambda>d. case map_of (tasks s) d of
                            None \<Rightarrow> d \<in> set objectPrototypeNames
                          | Some dep \<Rightarrow> task_status dep \<noteq> Completed) deps = []
          then None
          else Some (filter (\<lambda>d. case map_of (tasks s) d of
                                    None \<Rightarrow> d \<in> set objectPrototypeNames
                                  | Some dep \<Rightarrow> task_status dep \<noteq> Completed) deps))"
    unfolding unmet[symmetric]
    by (simp add: createTask_def Let_def split: option.splits)
next
  fix task bs
  assume h: "fst (assignTask rel now taskId agentId s) \<noteq> None
          \<and> map_of (tasks s) taskId = Some task \<and> blockedBy task = Some bs"
  then have "\<not> (length bs > 0 \<and> length (filter (dependencyUnmet (tasks s)) bs) > 0)"
    by (auto simp: assignTask_def split: option.splits if_splits)
  then have "filter (dependencyUnmet (tasks s)) bs = []"
    by (cases bs) auto
  then have "\<forall>d\<in>set bs. \<not> dependencyUnmet (tasks s) d"
    by (simp add: filter_empty_conv)
  then show "\<forall>d\<in>set bs. case map_of (tasks s) d of
                            None \<Rightarrow> d \<notin> set objectPrototypeNames
                          | Some dep \<Rightarrow> task_status dep = Completed"
    by (auto simp: dependencyUnmet_def split: option.splits)
next
  fix task'
  assume h: "fst (assignTask rel now taskId agentId s) = Some task'"
  then have both: "(blockedBy task' = None \<or> blockedBy task' = Some [])
      \<and> map_of (tasks (snd (assignTask rel now taskId agentId s))) taskId = Some task'"
    by (auto simp: assignTask_def Let_def split: option.splits if_splits
             dest!: assignCommit_result)
  from both show "blockedBy task' = None \<or> blockedBy task' = Some []" ..
  from both show "map_of (tasks (snd (assignTask rel now taskId agentId s))) taskId = Some task'" ..
qed

theorem dependency_gating_witness:
  "blockedBy (fst (createTask 500 ''t3'' (taskOptions None (Some [''t1'', ''t1''])) assignedRun))
     = Some [''t1'', ''t1'']
   \<and> map_option blockedBy (map_of (tasks dupRun) ''t3'') = Some (Some [''t1''])
   \<and> map_option task_status (map_of (tasks dupRun) ''t1'') = Some Completed
   \<and> map_option blockedBy (fst (assignTask relInside 2000 ''t3'' ''A1'' dupRun)) = Some (Some [])
   \<and> map_option blockedBy
        (map_of (tasks (snd (assignTask relInside 2000 ''t3'' ''A1'' dupRun))) ''t3'')
       = Some (Some [])
   \<and> blockedBy (fst (createTask 0 ''t4'' (taskOptions None (Some [''constructor'']))
                       (snd (registerAgent 0 ''A1'' noInfo (createInitialState defaultConfig)))))
       = Some [''constructor'']
   \<and> fst (assignTask relInside 1000 ''t4'' ''A1'' inheritedRun) = None"
proof -
  obtain t where t: "map_of (tasks dupRun) ''t3'' = Some t" and b: "blockedBy t = Some [''t1'']"
    by (simp add: server_eval lock_eval)
  obtain t' where ok: "fst (assignTask relInside 2000 ''t3'' ''A1'' dupRun) = Some t'"
    by (simp add: server_eval lock_eval)
  have dep_done: "map_option task_status (map_of (tasks dupRun) ''t1'') = Some Completed"
    by (simp add: server_eval lock_eval)
  have created: "blockedBy (fst (createTask 500 ''t3'' (taskOptions None (Some [''t1'', ''t1''])) assignedRun))
     = Some [''t1'', ''t1'']"
    by (simp add: server_eval lock_eval)
  have stored: "map_option blockedBy (fst (assignTask relInside 2000 ''t3'' ''A1'' dupRun)) = Some (Some [])"
    by (simp add: server_eval lock_eval)
  have inherited: "blockedBy (fst (createTask 0 ''t4'' (taskOptions None (Some [''constructor'']))
                       (snd (registerAgent 0 ''A1'' noInfo (createInitialState defaultConfig)))))
       = Some [''constructor'']"
    using dependency_gating[of 0 "''t4''" "taskOptions None (Some [''constructor''])"
            "snd (registerAgent 0 ''A1'' noInfo (createInitialState defaultConfig))"
            relInside "''A1''"]
    by (simp add: server_eval lock_eval)
  have refused: "fst (assignTask relInside 1000 ''t4'' ''A1'' inheritedRun) = None"
    by (simp add: server_eval lock_eval)
  from dependency_gating[of 2000 "''t3''" "taskOptions None None" dupRun relInside "''A1''"]
    t b ok dep_done created stored inherited refused
  show ?thesis by (auto simp del: map_option_eq_Some)
qed

subsection \<open>C3: handling a message twice\<close>

text \<open>
  C3, as stated, fails: the coordinator keeps no record of the envelope ids it has
  handled.  A \<open>TASK_COMPLETE\<close> of the assigned agent, handled twice, appends the task id
  to \<open>completedTasks\<close> twice and counts two completed tasks for the agent.
\<close>

theorem handle_twice_counterexample:
  "completedTasks (handleAgentMessage relInside 1000 ''A1'' completeMessage assignedRun) = [''t1'']
   \<and> completedTasks (handleAgentMessage relInside 1000 ''A1'' completeMessage
        (handleAgentMessage relInside 1000 ''A1'' completeMessage assignedRun)) = [''t1'', ''t1'']
   \<and> map_option agent_completedTasks
        (map_of (agents (handleAgentMessage relInside 1000 ''A1'' completeMessage assignedRun)) ''A1'')
       = Some 1
   \<and> map_option agent_completedTasks
        (map_of (agents (handleAgentMessage relInside 1000 ''A1'' completeMessage
           (handleAgentMessage relInside 1000 ''A1'' completeMessage assignedRun))) ''A1'')
       = Some 2"
  by (simp add: server_eval lock_eval)

text \<open>
  C3 (amended): handling an envelope and then an identical envelope yields the same
  coordinator state as handling it once
  \<^item> for \<open>AGENT_HEARTBEAT\<close>, when both are handled at the same clock reading;
  \<^item> for \<open>LOCK_REQUEST\<close>, at the same clock reading and with a lease that is not negative;
  \<^item> for \<open>TASK_UPDATE\<close>, \<open>LOCK_RELEASE\<close>, \<open>AGENT_DISCONNECT\<close> and the types without a
    handler, at any two clock readings;
  \<^item> for \<open>TASK_FAILED\<close>, unless the sender is the task's \<open>assignedAgent\<close> and no retry is
    left (\<open>attempts \<ge> maxAttempts\<close>);
  \<^item> for \<open>TASK_COMPLETE\<close>, when the sender is not the task's \<open>assignedAgent\<close>.

  For every \<open>TASK_COMPLETE\<close> and \<open>TASK_FAILED\<close> the second handling leaves the status of
  every task, the \<open>taskQueue\<close> and the lock manager as they are after the first.
\<close>

theorem handleAgentMessage_twice:
  "(case payload m of
      AGENT_HEARTBEAT status \<Rightarrow>
        handleAgentMessage rel now agentId m (handleAgentMessage rel now agentId m s)
          = handleAgentMessage rel now agentId m s
    | LOCK_REQUEST request \<Rightarrow>
        0 \<le> leaseLength request (lockManager s) \<longrightarrow>
        handleAgentMessage rel now agentId m (handleAgentMessage rel now agentId m s)
          = handleAgentMessage rel now agentId m s
    | TASK_COMPLETE taskId res \<Rightarrow>
        (\<forall>k. map_option task_status
                (map_of (tasks (handleAgentMessage rel now' agentId m
                                  (handleAgentMessage rel now agentId m s))) k)
             = map_option task_status (map_of (tasks (handleAgentMessage rel now agentId m s)) k))
        \<and> taskQueue (handleAgentMessage rel now' agentId m (handleAgentMessage rel now agentId m s))
            = taskQueue (handleAgentMessage rel now agentId m s)
        \<and> lockManager (handleAgentMessage rel now' agentId m (handleAgentMessage rel now agentId m s))
            = lockManager (handleAgentMessage rel now agentId m s)
        \<and> ((\<forall>task. map_of (tasks s) taskId = Some task \<longrightarrow> assignedAgent task \<noteq> Some agentId)
            \<longrightarrow> handleAgentMessage rel now' agentId m (handleAgentMessage rel now agentId m s)
                  = handleAgentMessage rel now agentId m s)
    | TASK_FAILED taskId err \<Rightarrow>
        (\<forall>k. map_option task_status
                (map_of (tasks (handleAgentMessage rel now' agentId m
                                  (handleAgentMessage rel now agentId m s))) k)
             = map_option task_status (map_of (tasks (handleAgentMessage rel now agentId m s)) k))
        \<and> taskQueue (handleAgentMessage rel now' agentId m (handleAgentMessage rel now agentId m s))
            = taskQueue (handleAgentMessage rel now agentId m s)
        \<and> lockManager (handleAgentMessage rel now' agentId m (handleAgentMessage rel now agentId m s))
            = lockManager (handleAgentMessage rel now agentId m s)
        \<and> ((\<forall>task. map_of (tasks s) taskId = Some task \<and> assignedAgent task = Some agentId
                    \<longrightarrow> attempts task < maxAttempts task)
            \<longrightarrow> handleAgentMessage rel now' agentId m (handleAgentMessage rel now agentId m s)
                  = handleAgentMessage rel now agentId m s)
    | _ \<Rightarrow>
        handleAgentMessage rel now' agentId m (handleAgentMessage rel now agentId m s)
          = handleAgentMessage rel now agentId m s)"
proof (cases "payload m")
  case (AGENT_HEARTBEAT status)
  then show ?thesis
    by (simp add: handleAgentMessage_def updateHeartbeat_idem)
next
  case TASK_UPDATE
  then show ?thesis by (simp add: handleAgentMessage_def)
next
  case (TASK_COMPLETE taskId res)
  have h: "handleAgentMessage rel t agentId m x = completeTask t taskId agentId res x" for t x
    using TASK_COMPLETE by (simp add: handleAgentMessage_def)
  have noop: "completeTask now' taskId agentId res (completeTask now taskId agentId res s)
                = completeTask now taskId agentId res s"
    if "\<forall>task. map_of (tasks s) taskId = Some task \<longrightarrow> assignedAgent task \<noteq> Some agentId"
    using that by (simp add: completeTask_noop)
  from completeTask_twice[of now' taskId agentId res now s] noop
  show ?thesis
    unfolding TASK_COMPLETE Payload.case h by blast
next
  case (TASK_FAILED taskId err)
  have h: "handleAgentMessage rel t agentId m x = failTask t taskId agentId err x" for t x
    using TASK_FAILED by (simp add: handleAgentMessage_def)
  from failTask_twice[of now' taskId agentId err now s]
  show ?thesis
    unfolding TASK_FAILED Payload.case h .
next
  case (LOCK_REQUEST request)
  then show ?thesis
    by (simp add: handleAgentMessage_def acquireLocks_idem)
next
  case (LOCK_RELEASE ps)
  then show ?thesis
    by (simp add: handleAgentMessage_def releaseLocks_idem)
next
  case AGENT_DISCONNECT
  then show ?thesis
    by (simp add: handleAgentMessage_def unregisterAgent_idem)
next
  case OTHER_MESSAGE
  then show ?thesis by (simp add: handleAgentMessage_def)
qed

theorem handleAgentMessage_twice_witness:
  "map_option (\<lambda>t. (assignedAgent t, attempts t, maxAttempts t)) (map_of (tasks assignedRun) ''t1'')
     = Some (Some ''A1'', 1, 3)
   \<and> handleAgentMessage relInside 6000 ''A1'' failMessage
        (handleAgentMessage relInside 5000 ''A1'' failMessage assignedRun)
       = handleAgentMessage relInside 5000 ''A1'' failMessage assignedRun
   \<and> map_option task_status
        (map_of (tasks (handleAgentMessage relInside 5000 ''A1'' failMessage assignedRun)) ''t1'')
       = Some Pending
   \<and> handleAgentMessage relInside 2000 ''A2'' completeMessage
        (handleAgentMessage relInside 1000 ''A2'' completeMessage assignedRun)
       = handleAgentMessage relInside 1000 ''A2'' completeMessage assignedRun
   \<and> leaseLength (lockRequest [''x.ts''] Write None) (lockManager assignedRun) = 300000
   \<and> handleAgentMessage relInside 200000 ''A1'' lockMessage
        (handleAgentMessage relInside 200000 ''A1'' lockMessage assignedRun)
       = handleAgentMessage relInside 200000 ''A1'' lockMessage assignedRun"
proof -
  have t: "map_option (\<lambda>t. (assignedAgent t, attempts t, maxAttempts t)) (map_of (tasks assignedRun) ''t1'')
     = Some (Some ''A1'', 1, 3)"
    by (simp add: server_eval lock_eval)
  have retry: "\<forall>task. map_of (tasks assignedRun) ''t1'' = Some task \<and> assignedAgent task = Some ''A1''
                 \<longrightarrow> attempts task < maxAttempts task"
    using t by auto
  have other: "\<forall>task. map_of (tasks assignedRun) ''t1'' = Some task \<longrightarrow> assignedAgent task \<noteq> Some ''A2''"
    using t by auto
  have lease: "leaseLength (lockRequest [''x.ts''] Write None) (lockManager assignedRun) = 300000"
    by (simp add: server_eval lock_eval)
  have pending: "map_option task_status
        (map_of (tasks (handleAgentMessage relInside 5000 ''A1'' failMessage assignedRun)) ''t1'')
       = Some Pending"
    by (simp add: server_eval lock_eval)
  from handleAgentMessage_twice[where m = failMessage and rel = relInside and now' = 6000
         and agentId = "''A1''" and now = 5000 and s = assignedRun] retry
  have 1: "handleAgentMessage relInside 6000 ''A1'' failMessage
        (handleAgentMessage relInside 5000 ''A1'' failMessage assignedRun)
       = handleAgentMessage relInside 5000 ''A1'' failMessage assignedRun"
    by (simp add: failMessage_def)
  from handleAgentMessage_twice[where m = completeMessage and rel = relInside and now' = 2000
         and agentId = "''A2''" and now = 1000 and s = assignedRun] other
  have 2: "handleAgentMessage relInside 2000 ''A2'' completeMessage
        (handleAgentMessage relInside 1000 ''A2'' completeMessage assignedRun)
       = handleAgentMessage relInside 1000 ''A2'' completeMessage assignedRun"
    by (simp add: completeMessage_def)
  from handleAgentMessage_twice[where m = lockMessage and rel = relInside and now' = 200000
         and agentId = "''A1''" and now = 200000 and s = assignedRun] lease
  have 3: "handleAgentMessage relInside 200000 ''A1'' lockMessage
        (handleAgentMessage relInside 200000 ''A1'' lockMessage assignedRun)
       = handleAgentMessage relInside 200000 ''A1'' lockMessage assignedRun"
    by (simp add: lockMessage_def)
  from t 1 pending 2 lease 3 show ?thesis by blast
qed

end
